theory Spec2Isabelle
  imports Main "HOL-Library.Sublist"
begin

section \<open>Strings and byte strings\<close>

text \<open>
  Python's \<open>str\<close> and \<open>bytes\<close> are both modelled as \<open>char list\<close>: an Isabelle
  \<open>char\<close> is one byte.  The only string operations the module uses are the
  substring test \<open>sub in s\<close>, \<open>str.replace\<close>, \<open>bytes.startswith\<close>, slicing
  from the front, \<open>bytes.hex\<close> and the decimal rendering of a length inside an
  f-string.  All patterns the module searches for are ASCII, so searching the
  UTF-8 bytes of a URL finds the same occurrences as searching its code points.
\<close>

type_synonym bytes = "char list"

text \<open>\<open>sub in s\<close>: some suffix of \<open>s\<close> starts with \<open>sub\<close>.\<close>

fun str_contains :: "string \<Rightarrow> string \<Rightarrow> bool" where
  "str_contains sub [] = (sub = [])"
| "str_contains sub (c # cs) = (prefix sub (c # cs) \<or> str_contains sub cs)"

text \<open>
  \<open>s.replace(old, new)\<close>: scanning from the left, every occurrence of \<open>old\<close> that
  does not overlap an occurrence already replaced is replaced by \<open>new\<close>.  For the
  empty pattern Python puts \<open>new\<close> before every character and at the end.
\<close>

function replace_scan :: "string \<Rightarrow> string \<Rightarrow> string \<Rightarrow> string" where
  "replace_scan old new [] = []"
| "replace_scan old new (c # cs) =
     (if old \<noteq> [] \<and> prefix old (c # cs)
      then new @ replace_scan old new (drop (length old) (c # cs))
      else c # replace_scan old new cs)"
  by pat_completeness auto
termination
  by (relation "measure (\<lambda>(old, new, s). length s)") auto

definition str_replace :: "string \<Rightarrow> string \<Rightarrow> string \<Rightarrow> string" where
  "str_replace old new s =
     (if old = [] then new @ concat (map (\<lambda>c. c # new) s) else replace_scan old new s)"

text \<open>\<open>str(n)\<close> for a non-negative integer: its decimal digits.\<close>

definition digit_char :: "nat \<Rightarrow> char" where
  "digit_char d = char_of (48 + d)"

fun str_nat :: "nat \<Rightarrow> string" where
  "str_nat n = (if n < 10 then [digit_char n] else str_nat (n div 10) @ [digit_char (n mod 10)])"

declare str_nat.simps [simp del]

text \<open>The number a string of decimal digits denotes, to read \<open>str_nat\<close> back.\<close>

definition decimal_value :: "string \<Rightarrow> nat" where
  "decimal_value s = foldl (\<lambda>a ch. 10 * a + (of_char ch - 48)) 0 s"

text \<open>\<open>bytes.hex()\<close>: two lower-case hexadecimal digits for each byte.\<close>

definition hex_digit :: "nat \<Rightarrow> char" where
  "hex_digit d = (if d < 10 then char_of (48 + d) else char_of (87 + d))"

definition bytes_hex :: "bytes \<Rightarrow> string" where
  "bytes_hex bs = concat (map (\<lambda>b. [hex_digit (of_char b div 16), hex_digit (of_char b mod 16)]) bs)"

section \<open>The world the module acts on\<close>

text \<open>
  Modelled from the spec: the class \<open>DataIngestionConfig\<close> of
  \<open>textSummarizer.entity\<close> is declared outside the module.  The module reads
  three of its fields, which the specification describes as the remote
  location of the archive, the path where the download is stored and the
  directory the members are extracted to.
\<close>

record config =
  source_URL :: string
  local_data_file :: string
  unzip_dir :: string

text \<open>
  Python exceptions, each carrying \<open>str(e)\<close>.  \<open>ValueError\<close> and \<open>BadZipFile\<close> are
  the two classes the retry handler of \<open>download_file\<close> names, and
  \<open>UnicodeDecodeError\<close> is a subclass of \<open>ValueError\<close>.  The next four are the
  \<open>OSError\<close> subclasses the file operations raise.  \<open>NotImplementedError\<close>,
  \<open>RuntimeError\<close>, \<open>KeyError\<close> and \<open>EOFError\<close> are what the archive reader
  raises besides \<open>BadZipFile\<close>, and \<open>URLError\<close> stands for a failed transfer.
  All of them derive from \<open>Exception\<close>.
\<close>

datatype exn =
    FileNotFoundError string
  | FileExistsError string
  | IsADirectoryError string
  | NotADirectoryError string
  | ValueError string
  | UnicodeDecodeError string
  | BadZipFile string
  | NotImplementedError string
  | RuntimeError string
  | KeyError string
  | EOFError string
  | URLError string

text \<open>The name of the class an exception is raised under.\<close>

fun exn_class :: "exn \<Rightarrow> string" where
  "exn_class (FileNotFoundError m) = ''FileNotFoundError''"
| "exn_class (FileExistsError m) = ''FileExistsError''"
| "exn_class (IsADirectoryError m) = ''IsADirectoryError''"
| "exn_class (NotADirectoryError m) = ''NotADirectoryError''"
| "exn_class (ValueError m) = ''ValueError''"
| "exn_class (UnicodeDecodeError m) = ''UnicodeDecodeError''"
| "exn_class (BadZipFile m) = ''BadZipFile''"
| "exn_class (NotImplementedError m) = ''NotImplementedError''"
| "exn_class (RuntimeError m) = ''RuntimeError''"
| "exn_class (KeyError m) = ''KeyError''"
| "exn_class (EOFError m) = ''EOFError''"
| "exn_class (URLError m) = ''URLError''"

datatype level = INFO | WARNING | ERROR

datatype node = File bytes | Dir

text \<open>
  The state: the file system (a path names a regular file, a directory or
  nothing), the URLs requested from the network so far, and the lines handed to
  the logger.  Paths are compared as they are spelled, so the file system is
  exact for paths in normal form, which is what \<open>os.path.normpath\<close> makes of
  every extraction target.
\<close>

record world =
  fs :: "string \<rightharpoonup> node"
  requests :: "string list"
  logs :: "(level \<times> string) list"

text \<open>
  What reading one member of an archive gives: its bytes; or an exception when
  the member is opened (an unsupported compression method, an encrypted member,
  a damaged local header), before the target file is touched; or an exception
  while the bytes are copied (a wrong CRC-32, truncated data), after the bytes
  given have reached the target file.
\<close>

datatype member = Member bytes | OpenFails exn | ReadFails bytes exn

text \<open>
  What the module's collaborators answer.  \<open>net url k\<close> is the outcome of the
  transfer of \<open>url\<close> when \<open>k\<close> transfers were made before: the body and the
  response headers, or an exception together with the bytes that reached the
  destination file before it was raised (if the file was opened at all).
  \<open>zip_entries\<close> is the archive reader \<open>zipfile.ZipFile\<close> on the content of a
  file: the exception it raises (\<open>BadZipFile\<close>, but also \<open>NotImplementedError\<close>
  for an archive of a later format version, \<open>UnicodeDecodeError\<close> for a member
  name that is not UTF-8, and others), or the members in central-directory
  order, each with its name and what reading it gives.  \<open>dir_size\<close> is what
  \<open>os.path.getsize\<close> reports for a directory, \<open>get_size\<close> the size formatter of
  \<open>textSummarizer.utils.common\<close> (defined outside the module; it turns a size
  in bytes into the string that is logged), and \<open>decode_text bs n\<close> the first
  \<open>n\<close> characters of \<open>bs\<close> read as UTF-8 text with undecodable bytes dropped.
\<close>

datatype net_result = NetOk bytes string | NetFail exn "bytes option"

record env =
  net :: "string \<Rightarrow> nat \<Rightarrow> net_result"
  zip_entries :: "bytes \<Rightarrow> exn + (string \<times> member) list"
  dir_size :: nat
  get_size :: "nat \<Rightarrow> string"
  decode_text :: "bytes \<Rightarrow> nat \<Rightarrow> string"

text \<open>
  Modelled from the spec: the \<open>logger\<close> object of \<open>textSummarizer.logging\<close> is
  defined outside the module.  The specification treats it as a collaborator
  that takes a message at the informational, warning or error level; here it
  appends the line to the log of the world.
\<close>

definition logger :: "level \<Rightarrow> string \<Rightarrow> world \<Rightarrow> world" where
  "logger lvl msg w = w\<lparr>logs := logs w @ [(lvl, msg)]\<rparr>"

subsection \<open>Paths\<close>

text \<open>
  \<open>os.path.dirname\<close> and \<open>os.path.basename\<close> (posixpath), the two halves of
  \<open>os.path.split\<close>: the head is everything up to and including the last slash,
  with the trailing slashes stripped unless nothing else is left; the tail is
  what follows the last slash.
\<close>

definition dirname :: "string \<Rightarrow> string" where
  "dirname p =
     (let head = rev (dropWhile (\<lambda>c. c \<noteq> CHR ''/'') (rev p))
      in if head \<noteq> [] \<and> \<not> list_all (\<lambda>c. c = CHR ''/'') head
         then rev (dropWhile (\<lambda>c. c = CHR ''/'') (rev head))
         else head)"

definition basename :: "string \<Rightarrow> string" where
  "basename p = rev (takeWhile (\<lambda>c. c \<noteq> CHR ''/'') (rev p))"

definition split_path :: "string \<Rightarrow> string \<times> string" where
  "split_path p = (dirname p, basename p)"

text \<open>
  The first three lines of \<open>os.makedirs\<close>: the path is split, and split once
  more when it ends in a slash, so that the head is the directory above the
  last component of the path and the tail that component.
\<close>

definition parent_and_name :: "string \<Rightarrow> string \<times> string" where
  "parent_and_name name =
     (case split_path name of
        (head, tail) \<Rightarrow> if tail = [] then split_path head else (head, tail))"

text \<open>\<open>os.path.join(a, b)\<close> (posixpath) for two arguments.\<close>

definition path_join :: "string \<Rightarrow> string \<Rightarrow> string" where
  "path_join a b =
     (if prefix ''/'' b then b
      else if a = [] \<or> last a = CHR ''/'' then a @ b
      else a @ ''/'' @ b)"

text \<open>\<open>s.split('/')\<close> and \<open>'/'.join(xs)\<close>.\<close>

fun split_slash :: "string \<Rightarrow> string list" where
  "split_slash [] = [[]]"
| "split_slash (c # cs) =
     (if c = CHR ''/'' then [] # split_slash cs
      else (c # hd (split_slash cs)) # tl (split_slash cs))"

fun join_slash :: "string list \<Rightarrow> string" where
  "join_slash [] = []"
| "join_slash [x] = x"
| "join_slash (x # y # ys) = x @ ''/'' @ join_slash (y # ys)"

text \<open>
  \<open>os.path.normpath\<close> (posixpath).  \<open>norm_comps\<close> is its loop over the
  components: empty components and \<open>.\<close> are skipped, and \<open>..\<close> takes the
  component before it away, unless there is none (then it is kept in a relative
  path and dropped in an absolute one) or that one is \<open>..\<close> itself.
\<close>

fun norm_comps :: "bool \<Rightarrow> string list \<Rightarrow> string list \<Rightarrow> string list" where
  "norm_comps initial_slashes new_comps [] = new_comps"
| "norm_comps initial_slashes new_comps (part # comps) =
     (if part = [] \<or> part = ''.'' then norm_comps initial_slashes new_comps comps
      else if part \<noteq> ''..'' \<or> (\<not> initial_slashes \<and> new_comps = [])
              \<or> (new_comps \<noteq> [] \<and> last new_comps = ''..'')
      then norm_comps initial_slashes (new_comps @ [part]) comps
      else if new_comps \<noteq> [] then norm_comps initial_slashes (butlast new_comps) comps
      else norm_comps initial_slashes new_comps comps)"

definition normpath :: "string \<Rightarrow> string" where
  "normpath path =
     (if path = [] then ''.''
      else
        (let initial_slashes =
               (if \<not> prefix ''/'' path then 0
                else if prefix ''//'' path \<and> \<not> prefix ''///'' path then 2 else (1::nat));
             comps = norm_comps (initial_slashes \<noteq> 0) [] (split_slash path);
             path' = replicate initial_slashes (CHR ''/'') @ join_slash comps
         in if path' = [] then ''.'' else path'))"

text \<open>
  The directories above a path, nearest first: its \<open>dirname\<close>, the \<open>dirname\<close> of
  that, and so on, as long as this gives a shorter path that is not empty.
\<close>

function ancestors :: "string \<Rightarrow> string list" where
  "ancestors p =
     (if dirname p \<noteq> [] \<and> length (dirname p) < length p
      then dirname p # ancestors (dirname p) else [])"
  by pat_completeness auto
termination
  by (relation "measure length") auto

declare ancestors.simps [simp del]

subsection \<open>File-system primitives\<close>

text \<open>
  The empty path names nothing and a path made of slashes only is the root
  directory, which always exists; every other path is looked up.
\<close>

definition is_root :: "string \<Rightarrow> bool" where
  "is_root p = (p \<noteq> [] \<and> list_all (\<lambda>c. c = CHR ''/'') p)"

definition node_at :: "world \<Rightarrow> string \<Rightarrow> node option" where
  "node_at w p = (if p = [] then None else if is_root p then Some Dir else fs w p)"

definition os_msg :: "string \<Rightarrow> string \<Rightarrow> string \<Rightarrow> string" where
  "os_msg errno what p = ''[Errno '' @ errno @ ''] '' @ what @ '': '' @ [CHR 0x27] @ p @ [CHR 0x27]"

definition ENOENT :: "string \<Rightarrow> exn" where
  "ENOENT p = FileNotFoundError (os_msg ''2'' ''No such file or directory'' p)"

definition EISDIR :: "string \<Rightarrow> exn" where
  "EISDIR p = IsADirectoryError (os_msg ''21'' ''Is a directory'' p)"

definition EEXIST :: "string \<Rightarrow> exn" where
  "EEXIST p = FileExistsError (os_msg ''17'' ''File exists'' p)"

definition ENOTDIR :: "string \<Rightarrow> exn" where
  "ENOTDIR p = NotADirectoryError (os_msg ''20'' ''Not a directory'' p)"

definition path_exists :: "string \<Rightarrow> world \<Rightarrow> bool" where
  "path_exists p w = (node_at w p \<noteq> None)"

definition isdir :: "string \<Rightarrow> world \<Rightarrow> bool" where
  "isdir p w = (node_at w p = Some Dir)"

definition getsize :: "env \<Rightarrow> string \<Rightarrow> world \<Rightarrow> exn + nat" where
  "getsize E p w =
     (case node_at w p of
        None \<Rightarrow> Inl (ENOENT p)
      | Some (File bs) \<Rightarrow> Inr (length bs)
      | Some Dir \<Rightarrow> Inr (dir_size E))"

text \<open>\<open>open(p, 'rb')\<close> followed by \<open>read(n)\<close>: at most \<open>n\<close> bytes, fewer on a short file.\<close>

definition read_bytes :: "string \<Rightarrow> nat \<Rightarrow> world \<Rightarrow> exn + bytes" where
  "read_bytes p n w =
     (case node_at w p of
        None \<Rightarrow> Inl (ENOENT p)
      | Some (File bs) \<Rightarrow> Inr (take n bs)
      | Some Dir \<Rightarrow> Inl (EISDIR p))"

definition read_text :: "env \<Rightarrow> string \<Rightarrow> nat \<Rightarrow> world \<Rightarrow> exn + string" where
  "read_text E p n w =
     (case node_at w p of
        None \<Rightarrow> Inl (ENOENT p)
      | Some (File bs) \<Rightarrow> Inr (decode_text E bs n)
      | Some Dir \<Rightarrow> Inl (EISDIR p))"

text \<open>
  \<open>open(p, 'wb')\<close> with the bytes written and the file closed, as \<open>urlretrieve\<close>
  does it right after \<open>os.makedirs\<close> has made the directory of \<open>p\<close>.
\<close>

definition write_file :: "string \<Rightarrow> bytes \<Rightarrow> world \<Rightarrow> exn + world" where
  "write_file p bs w =
     (if p = [] then Inl (ENOENT p)
      else case node_at w p of
        Some Dir \<Rightarrow> Inl (EISDIR p)
      | _ \<Rightarrow> Inr (w\<lparr>fs := (fs w)(p \<mapsto> File bs)\<rparr>))"

text \<open>
  \<open>open(p, 'wb')\<close> as the extraction of a member does it.  The directory
  above \<open>p\<close> exists by then, but it may be a regular file (an earlier member of
  the same archive, for one): then the path cannot be opened.
\<close>

definition open_wb :: "string \<Rightarrow> bytes \<Rightarrow> world \<Rightarrow> exn + world" where
  "open_wb p bs w =
     (case node_at w (fst (parent_and_name p)) of
        Some (File b) \<Rightarrow> Inl (ENOTDIR p)
      | _ \<Rightarrow> write_file p bs w)"

definition os_remove :: "string \<Rightarrow> world \<Rightarrow> exn + world" where
  "os_remove p w =
     (case node_at w p of
        None \<Rightarrow> Inl (ENOENT p)
      | Some Dir \<Rightarrow> Inl (EISDIR p)
      | Some (File bs) \<Rightarrow> Inr (w\<lparr>fs := (fs w)(p := None)\<rparr>))"

text \<open>
  \<open>os.mkdir(p)\<close>: an error on the empty path, on a path that exists and under
  a regular file; a new directory otherwise.  Both callers have made sure of
  the directory above \<open>p\<close> before, so its absence is not looked for.
\<close>

definition mkdir :: "string \<Rightarrow> world \<Rightarrow> exn + world" where
  "mkdir p w =
     (if p = [] then Inl (ENOENT p)
      else if path_exists p w then Inl (EEXIST p)
      else case node_at w (fst (parent_and_name p)) of
        Some (File b) \<Rightarrow> Inl (ENOTDIR p)
      | _ \<Rightarrow> Inr (w\<lparr>fs := (fs w)(p \<mapsto> Dir)\<rparr>))"

text \<open>
  \<open>os.makedirs(name, exist_ok=exist_ok)\<close>.  \<open>makedirs_leaf\<close> is the \<open>try\<close>
  statement at its end: every error of \<open>mkdir\<close> is an \<open>OSError\<close>, and it is
  raised again unless \<open>exist_ok\<close> is set and the path is a directory.
\<close>

definition makedirs_leaf :: "bool \<Rightarrow> string \<Rightarrow> world \<Rightarrow> (exn + unit) \<times> world" where
  "makedirs_leaf exist_ok name w =
     (case mkdir name w of
        Inl e \<Rightarrow> (if \<not> exist_ok \<or> \<not> isdir name w then (Inl e, w) else (Inr (), w))
      | Inr w1 \<Rightarrow> (Inr (), w1))"

fun is_FileExistsError :: "exn \<Rightarrow> bool" where
  "is_FileExistsError (FileExistsError m) = True"
| "is_FileExistsError e = False"

function os_makedirs :: "bool \<Rightarrow> string \<Rightarrow> world \<Rightarrow> (exn + unit) \<times> world" where
  "os_makedirs exist_ok name w =
     (case parent_and_name name of
        (head, tail) \<Rightarrow>
          (if head \<noteq> [] \<and> tail \<noteq> [] \<and> \<not> path_exists head w then
             (case os_makedirs exist_ok head w of
                (Inl e, w1) \<Rightarrow>
                  (if \<not> is_FileExistsError e then (Inl e, w1)
                   else if tail = ''.'' then (Inr (), w1)
                   else makedirs_leaf exist_ok name w1)
              | (Inr u, w1) \<Rightarrow>
                  (if tail = ''.'' then (Inr (), w1)
                   else makedirs_leaf exist_ok name w1))
           else makedirs_leaf exist_ok name w))"
  by pat_completeness auto

text \<open>
  The recursive call is on the directory above the last component, which is a
  shorter path.
\<close>

termination os_makedirs
proof (relation "measure (\<lambda>(exist_ok, name, w). length name)")
  show "wf (measure (\<lambda>(exist_ok, name, w). length name))"
    by simp
next
  fix exist_ok :: bool and name :: string and w :: world and head tail :: string
  assume pn: "(head, tail) = parent_and_name name"
    and g: "head \<noteq> [] \<and> tail \<noteq> [] \<and> \<not> path_exists head w"
  have le: "length (dirname p) \<le> length p" for p
  proof -
    have 1: "length (dropWhile (\<lambda>c. c \<noteq> CHR ''/'') (rev p)) \<le> length p"
      using length_dropWhile_le [of "\<lambda>c. c \<noteq> CHR ''/''" "rev p"] by simp
    have 2: "length (dropWhile (\<lambda>c. c = CHR ''/'') (dropWhile (\<lambda>c. c \<noteq> CHR ''/'') (rev p))) \<le> length p"
      using length_dropWhile_le [of "\<lambda>c. c = CHR ''/''" "dropWhile (\<lambda>c. c \<noteq> CHR ''/'') (rev p)"] 1
      by simp
    show ?thesis using 1 2 by (simp add: dirname_def Let_def)
  qed
  have lt: "length (dirname p) < length p" if "basename p \<noteq> []" for p
  proof -
    have "length (takeWhile (\<lambda>c. c \<noteq> CHR ''/'') (rev p))
            + length (dropWhile (\<lambda>c. c \<noteq> CHR ''/'') (rev p)) = length p"
      using takeWhile_dropWhile_id [of "\<lambda>c. c \<noteq> CHR ''/''" "rev p"]
      by (metis length_append length_rev)
    moreover have "length (takeWhile (\<lambda>c. c \<noteq> CHR ''/'') (rev p)) > 0"
      using that by (simp add: basename_def)
    ultimately have 1: "length (dropWhile (\<lambda>c. c \<noteq> CHR ''/'') (rev p)) < length p"
      by linarith
    have 2: "length (dropWhile (\<lambda>c. c = CHR ''/'') (dropWhile (\<lambda>c. c \<noteq> CHR ''/'') (rev p)))
               \<le> length (dropWhile (\<lambda>c. c \<noteq> CHR ''/'') (rev p))"
      by (rule length_dropWhile_le)
    show ?thesis using 1 2 by (simp add: dirname_def Let_def)
  qed
  have "length head < length name"
  proof (cases "basename name = []")
    case True
    with pn have h: "head = dirname (dirname name)" and t: "tail = basename (dirname name)"
      by (auto simp: parent_and_name_def split_path_def)
    from g t have "length (dirname (dirname name)) < length (dirname name)"
      by (intro lt) simp
    with le [of name] h show ?thesis by simp
  next
    case False
    with pn have "head = dirname name"
      by (auto simp: parent_and_name_def split_path_def)
    with lt [OF False] show ?thesis by simp
  qed
  then show "((exist_ok, head, w), (exist_ok, name, w)) \<in> measure (\<lambda>(exist_ok, name, w). length name)"
    by simp
qed

declare os_makedirs.simps [simp del]

text \<open>
  \<open>os.makedirs(p, exist_ok=True)\<close> when it succeeds: the world it leaves.
\<close>

definition makedirs :: "string \<Rightarrow> world \<Rightarrow> exn + world" where
  "makedirs p w =
     (case os_makedirs True p w of
        (Inl e, w1) \<Rightarrow> Inl e
      | (Inr u, w1) \<Rightarrow> Inr w1)"

subsection \<open>Network and archive primitives\<close>

text \<open>
  \<open>urlretrieve(url, filename)\<close>: the request is made first; the destination is
  opened for writing only once the server has answered.  On success the result
  is the file name and the headers.
\<close>

definition urlretrieve :: "env \<Rightarrow> string \<Rightarrow> string \<Rightarrow> world \<Rightarrow> (exn + string \<times> string) \<times> world" where
  "urlretrieve E url filename w =
     (let w1 = w\<lparr>requests := requests w @ [url]\<rparr>
      in case net E url (length (requests w)) of
           NetFail e None \<Rightarrow> (Inl e, w1)
         | NetFail e (Some part) \<Rightarrow>
             (case write_file filename part w1 of
                Inl e' \<Rightarrow> (Inl e', w1)
              | Inr w2 \<Rightarrow> (Inl e, w2))
         | NetOk body headers \<Rightarrow>
             (case write_file filename body w1 of
                Inl e' \<Rightarrow> (Inl e', w1)
              | Inr w2 \<Rightarrow> (Inr (filename, headers), w2)))"

text \<open>
  \<open>zipfile.ZipFile(p, 'r')\<close>: the members of the archive at \<open>p\<close>, or the
  exception of the file system or of the archive reader, whatever its class.
\<close>

definition zip_open :: "env \<Rightarrow> string \<Rightarrow> world \<Rightarrow> exn + (string \<times> member) list" where
  "zip_open E p w =
     (case node_at w p of
        None \<Rightarrow> Inl (ENOENT p)
      | Some Dir \<Rightarrow> Inl (EISDIR p)
      | Some (File bs) \<Rightarrow> zip_entries E bs)"

text \<open>
  \<open>ZipFile.getinfo(name)\<close>: the member registered under the name, which is the
  last one when several members share it.
\<close>

definition getinfo :: "(string \<times> member) list \<Rightarrow> string \<Rightarrow> exn + member" where
  "getinfo entries name =
     (case map_of (rev entries) name of
        None \<Rightarrow> Inl (KeyError ([CHR 0x22] @ ''There is no item named '' @ [CHR 0x27] @ name @ [CHR 0x27]
                                @ '' in the archive'' @ [CHR 0x22]))
      | Some m \<Rightarrow> Inr m)"

text \<open>\<open>ZipInfo.is_dir()\<close>: the name of a directory entry ends with a slash.\<close>

definition is_dir :: "string \<Rightarrow> bool" where
  "is_dir name = (name \<noteq> [] \<and> last name = CHR ''/'')"

text \<open>
  The path a member is extracted to (the first half of
  \<open>ZipFile._extract_member\<close>): the empty components of its name and the
  components \<open>.\<close> and \<open>..\<close> are dropped, which also makes an absolute name
  relative; what is left is joined to the target directory and normalised.
\<close>

definition member_arcname :: "string \<Rightarrow> string" where
  "member_arcname name =
     join_slash (filter (\<lambda>x. x \<noteq> [] \<and> x \<noteq> ''.'' \<and> x \<noteq> ''..'') (split_slash name))"

definition extract_target :: "string \<Rightarrow> string \<Rightarrow> string" where
  "extract_target targetpath name = normpath (path_join targetpath (member_arcname name))"

text \<open>
  \<open>ZipFile._extract_member(name, targetpath, pwd)\<close>: the directories above the
  target are made if the one next to it does not exist; a directory entry
  becomes a directory; any other member is opened, then the target file is
  opened for writing, then the bytes are copied.
\<close>

definition extract_member :: "(string \<times> member) list \<Rightarrow> string \<Rightarrow> string \<Rightarrow> world \<Rightarrow> (exn + unit) \<times> world" where
  "extract_member entries targetpath name w =
     (case getinfo entries name of
        Inl e \<Rightarrow> (Inl e, w)
      | Inr m \<Rightarrow>
         (let target = extract_target targetpath name;
              upperdirs = dirname target
          in (case (if upperdirs \<noteq> [] \<and> \<not> path_exists upperdirs w
                    then os_makedirs False upperdirs w else (Inr (), w)) of
                (Inl e, w1) \<Rightarrow> (Inl e, w1)
              | (Inr u, w1) \<Rightarrow>
                 (if is_dir name then
                    (if \<not> isdir target w1 then
                       (case mkdir target w1 of
                          Inl e \<Rightarrow> (Inl e, w1)
                        | Inr w2 \<Rightarrow> (Inr (), w2))
                     else (Inr (), w1))
                  else
                    (case m of
                       OpenFails e \<Rightarrow> (Inl e, w1)
                     | Member bs \<Rightarrow>
                        (case open_wb target bs w1 of
                           Inl e \<Rightarrow> (Inl e, w1)
                         | Inr w2 \<Rightarrow> (Inr (), w2))
                     | ReadFails part e \<Rightarrow>
                        (case open_wb target part w1 of
                           Inl e' \<Rightarrow> (Inl e', w1)
                         | Inr w2 \<Rightarrow> (Inl e, w2)))))))"

text \<open>
  \<open>ZipFile.extractall(d)\<close>: the names of \<open>namelist()\<close> are extracted in order;
  the first member that fails stops the extraction and leaves what was
  extracted before in place.
\<close>

fun extract_names :: "(string \<times> member) list \<Rightarrow> string \<Rightarrow> string list \<Rightarrow> world \<Rightarrow> (exn + unit) \<times> world" where
  "extract_names entries d [] w = (Inr (), w)"
| "extract_names entries d (name # names) w =
     (case extract_member entries d name w of
        (Inl e, w1) \<Rightarrow> (Inl e, w1)
      | (Inr u, w1) \<Rightarrow> extract_names entries d names w1)"

definition extractall :: "string \<Rightarrow> (string \<times> member) list \<Rightarrow> world \<Rightarrow> (exn + unit) \<times> world" where
  "extractall d entries w = extract_names entries d (map fst entries) w"

section \<open>The module\<close>

subsection \<open>\<open>_fix_github_url\<close>\<close>

definition fix_github_url :: "string \<Rightarrow> world \<Rightarrow> string \<times> world" where
  "fix_github_url url w =
     (if str_contains ''github.com'' url \<and> str_contains ''/blob/'' url then
        (let fixed_url = str_replace ''github.com'' ''raw.githubusercontent.com'' url;
             fixed_url2 = str_replace ''/blob/'' ''/'' fixed_url
         in (fixed_url2, logger INFO (''Fixed GitHub URL: '' @ url @ '' -> '' @ fixed_url2) w))
      else (url, w))"

subsection \<open>\<open>_validate_zip_file\<close>\<close>

definition validate_zip_file :: "env \<Rightarrow> string \<Rightarrow> world \<Rightarrow> (exn + bool) \<times> world" where
  "validate_zip_file E file_path w =
     (if \<not> path_exists file_path w then
        (Inl (FileNotFoundError (''File not found: '' @ file_path)), w)
      else
        (case getsize E file_path w of
           Inl e \<Rightarrow> (Inl e, w)
         | Inr file_size \<Rightarrow>
            (if file_size = 0 then (Inl (ValueError ''Downloaded file is empty''), w)
             else
               (case read_bytes file_path 100 w of
                  Inl e \<Rightarrow> (Inl e, w)
                | Inr first_bytes \<Rightarrow>
                   (if prefix ''<!DOCTYPE'' first_bytes \<or> prefix ''<html'' first_bytes then
                      (let w1 = logger ERROR ''Downloaded HTML page instead of ZIP file'' w
                       in (case read_text E file_path 300 w1 of
                             Inl e \<Rightarrow> (Inl e, w1)
                           | Inr html_content \<Rightarrow>
                              (Inl (ValueError ''Downloaded HTML page instead of ZIP file. Check the URL.''),
                               logger ERROR (''HTML content: '' @ html_content) w1)))
                    else if \<not> prefix ''PK'' first_bytes then
                      (Inl (ValueError (''File is not a ZIP file. First bytes: ''
                                        @ bytes_hex (take 20 first_bytes))), w)
                    else
                      (case zip_open E file_path w of
                         Inl e \<Rightarrow>
                          (case e of
                             BadZipFile msg \<Rightarrow> (Inl (BadZipFile (''Corrupted ZIP file: '' @ msg)), w)
                           | _ \<Rightarrow> (Inl e, w))
                       | Inr entries \<Rightarrow>
                          (let file_list = map fst entries
                           in (Inr True,
                               logger INFO (''ZIP file is valid with '' @ str_nat (length file_list)
                                            @ '' files'') w))))))))"

subsection \<open>\<open>download_file\<close>\<close>

text \<open>\<open>str(e)\<close>, as the f-strings of the handlers render an exception.\<close>

fun exn_str :: "exn \<Rightarrow> string" where
  "exn_str (FileNotFoundError m) = m"
| "exn_str (FileExistsError m) = m"
| "exn_str (IsADirectoryError m) = m"
| "exn_str (NotADirectoryError m) = m"
| "exn_str (ValueError m) = m"
| "exn_str (UnicodeDecodeError m) = m"
| "exn_str (BadZipFile m) = m"
| "exn_str (NotImplementedError m) = m"
| "exn_str (RuntimeError m) = m"
| "exn_str (KeyError m) = m"
| "exn_str (EOFError m) = m"
| "exn_str (URLError m) = m"

text \<open>
  The classes caught by \<open>except (ValueError, zipfile.BadZipFile)\<close>: the two
  named and the subclass \<open>UnicodeDecodeError\<close> of the first.
\<close>

fun is_ValueError_or_BadZipFile :: "exn \<Rightarrow> bool" where
  "is_ValueError_or_BadZipFile (ValueError m) = True"
| "is_ValueError_or_BadZipFile (UnicodeDecodeError m) = True"
| "is_ValueError_or_BadZipFile (BadZipFile m) = True"
| "is_ValueError_or_BadZipFile e = False"

text \<open>The branch taken when the destination does not exist (source lines 69 to 86).\<close>

definition fresh_download :: "env \<Rightarrow> config \<Rightarrow> world \<Rightarrow> (exn + unit) \<times> world" where
  "fresh_download E c w =
     (case os_makedirs True (dirname (local_data_file c)) w of
        (Inl e, w1) \<Rightarrow> (Inl e, w1)
      | (Inr u, w1) \<Rightarrow>
         (case fix_github_url (source_URL c) w1 of
            (download_url, w2) \<Rightarrow>
             (let w3 = logger INFO (''Downloading from: '' @ download_url) w2
              in (case urlretrieve E download_url (local_data_file c) w3 of
                    (Inl e, w4) \<Rightarrow> (Inl e, w4)
                  | (Inr (filename, headers), w4) \<Rightarrow>
                     (let w5 = logger INFO (filename @ '' downloaded! Headers: '' @ [CHR 0x0A] @ headers) w4
                      in (case validate_zip_file E (local_data_file c) w5 of
                            (Inl e, w6) \<Rightarrow> (Inl e, w6)
                          | (Inr ok, w6) \<Rightarrow>
                             (Inr (), logger INFO ''File validated successfully as ZIP'' w6)))))))"
text \<open>\<open>get_size(Path(p))\<close> of \<open>utils.common\<close>: the size of the file, formatted.\<close>

definition size_string :: "env \<Rightarrow> string \<Rightarrow> world \<Rightarrow> exn + string" where
  "size_string E p w = (case getsize E p w of Inl e \<Rightarrow> Inl e | Inr n \<Rightarrow> Inr (get_size E n))"

text \<open>
  The outer handler \<open>except Exception as e\<close> (source lines 102 to 109): remove
  the destination if it exists, log, and re-raise with a bare \<open>raise\<close>.  An
  exception raised by \<open>os.remove\<close> inside the handler replaces \<open>e\<close>.
\<close>

definition except_Exception :: "config \<Rightarrow> exn \<Rightarrow> world \<Rightarrow> (exn + unit) \<times> world" where
  "except_Exception c e w =
     (if path_exists (local_data_file c) w then
        (case os_remove (local_data_file c) w of
           Inl e' \<Rightarrow> (Inl e', w)
         | Inr w1 \<Rightarrow>
            (Inl e, logger ERROR (''Download failed: '' @ exn_str e)
                      (logger ERROR ''Removed failed download'' w1)))
      else (Inl e, logger ERROR (''Download failed: '' @ exn_str e) w))"

text \<open>
  \<open>download_try\<close> is the body of the \<open>try\<close> statement (source lines 68 to 100),
  \<open>download_file\<close> the whole method: the body under the handler.  The body
  calls the method again on its retry path.
\<close>

function download_try :: "env \<Rightarrow> config \<Rightarrow> world \<Rightarrow> (exn + unit) \<times> world"
  and download_file :: "env \<Rightarrow> config \<Rightarrow> world \<Rightarrow> (exn + unit) \<times> world" where
  "download_try E c w =
     (if \<not> path_exists (local_data_file c) w then fresh_download E c w
      else
        (case size_string E (local_data_file c) w of
           Inl e \<Rightarrow> (Inl e, w)
         | Inr file_size \<Rightarrow>
            (let w1 = logger INFO (''File already exists of size: '' @ file_size) w
             in (case validate_zip_file E (local_data_file c) w1 of
                   (Inr ok, w2) \<Rightarrow> (Inr (), w2)
                 | (Inl e, w2) \<Rightarrow>
                    (if is_ValueError_or_BadZipFile e then
                       (let w3 = logger WARNING (''Existing file is invalid: '' @ exn_str e) w2;
                            w4 = logger INFO ''Removing invalid file and re-downloading...'' w3
                        in (case os_remove (local_data_file c) w4 of
                              Inl e' \<Rightarrow> (Inl e', w4)
                            | Inr w5 \<Rightarrow> download_file E c w5))
                     else (Inl e, w2))))))"
| "download_file E c w =
     (case download_try E c w of
        (Inl e, w') \<Rightarrow> except_Exception c e w'
      | (Inr u, w') \<Rightarrow> (Inr u, w'))"
  by pat_completeness auto

text \<open>
  The only recursive call is made right after \<open>os.remove\<close> has succeeded on the
  destination, so the callee finds no file there and takes the branch without a
  recursive call.
\<close>

termination download_try
  by (relation "measure (\<lambda>x. case x of
          Inl (E, c, w) \<Rightarrow> (if path_exists (local_data_file c) w then 2 else 0)
        | Inr (E, c, w) \<Rightarrow> (if path_exists (local_data_file c) w then 3 else 1))")
     (auto simp: os_remove_def path_exists_def node_at_def
           split: option.splits node.splits if_splits)

declare download_try.simps [simp del]
declare download_file.simps [simp del]

subsection \<open>\<open>extract_zip_file\<close>\<close>

text \<open>
  The loop over \<open>enumerate(file_list[:5])\<close>: one line for each name, numbered from
  \<open>i + 1\<close>.
\<close>

fun log_samples :: "nat \<Rightarrow> string list \<Rightarrow> world \<Rightarrow> world" where
  "log_samples i [] w = w"
| "log_samples i (filename # rest) w =
     log_samples (Suc i) rest (logger INFO (''  '' @ str_nat (i + 1) @ ''. '' @ filename) w)"


text \<open>The body of the \<open>try\<close> statement (source lines 116 to 140).\<close>

definition extract_try :: "env \<Rightarrow> config \<Rightarrow> world \<Rightarrow> (exn + unit) \<times> world" where
  "extract_try E c w =
     (case validate_zip_file E (local_data_file c) w of
        (Inl e, w1) \<Rightarrow> (Inl e, w1)
      | (Inr ok, w1) \<Rightarrow>
         (let unzip_path = unzip_dir c
          in (case os_makedirs True unzip_path w1 of
                (Inl e, w2) \<Rightarrow> (Inl e, w2)
              | (Inr u, w2) \<Rightarrow>
                 (let w3 = logger INFO (''Extracting ZIP file to: '' @ unzip_path) w2
                  in (case zip_open E (local_data_file c) w3 of
                        Inl e \<Rightarrow> (Inl e, w3)
                      | Inr entries \<Rightarrow>
                         (let file_list = map fst entries;
                              w4 = logger INFO (''Extracting '' @ str_nat (length file_list) @ '' files...'') w3
                          in (case extractall unzip_path entries w4 of
                                (Inl e, w5) \<Rightarrow> (Inl e, w5)
                              | (Inr u, w5) \<Rightarrow>
                                 (let w6 =
                                    (if file_list \<noteq> [] then
                                       (let w7 = logger INFO ''Sample extracted files:'' w5;
                                            w8 = log_samples 0 (take 5 file_list) w7
                                        in if length file_list > 5
                                           then logger INFO (''  ... and '' @ str_nat (length file_list - 5)
                                                             @ '' more files'') w8
                                           else w8)
                                     else w5)
                                  in (Inr (), logger INFO ''ZIP extraction completed successfully!'' w6)))))))))"

text \<open>
  The two handlers (source lines 142 to 151): both log and re-raise; the first
  one takes \<open>BadZipFile\<close>, the second every other exception.
\<close>

definition extract_except :: "exn \<Rightarrow> world \<Rightarrow> world" where
  "extract_except e w =
     (case e of
        BadZipFile m \<Rightarrow>
          logger ERROR ''3. File is not actually a ZIP file''
           (logger ERROR ''2. Wrong URL (downloaded HTML instead of ZIP)''
             (logger ERROR ''1. Downloaded file is corrupted''
               (logger ERROR ''Possible causes:''
                 (logger ERROR (''ZIP file error: '' @ exn_str e) w))))
      | _ \<Rightarrow> logger ERROR (''Extraction failed: '' @ exn_str e) w)"

definition extract_zip_file :: "env \<Rightarrow> config \<Rightarrow> world \<Rightarrow> (exn + unit) \<times> world" where
  "extract_zip_file E c w =
     (case extract_try E c w of
        (Inl e, w1) \<Rightarrow> (Inl e, extract_except e w1)
      | (Inr u, w1) \<Rightarrow> (Inr u, w1))"

section \<open>The words of the specification\<close>

text \<open>
  The host a URL names, as the specification speaks of a URL \<open>on the known
  host\<close>: what stands between \<open>://\<close> and the next slash.
\<close>

fun after_scheme :: "string \<Rightarrow> string" where
  "after_scheme [] = []"
| "after_scheme (c # cs) = (if prefix ''://'' (c # cs) then drop 3 (c # cs) else after_scheme cs)"

definition url_host :: "string \<Rightarrow> string" where
  "url_host url = takeWhile (\<lambda>c. c \<noteq> CHR ''/'') (after_scheme url)"

text \<open>
  What the specification asks \<open>extract\<close> to log about the members: nothing for
  an archive without members; otherwise a heading, the first five names (or
  all of them if there are fewer) numbered from 1, and the number of names left
  out when there are more than five.
\<close>

definition spec_sample_lines :: "string list \<Rightarrow> (level \<times> string) list" where
  "spec_sample_lines names =
     (if names = [] then []
      else (INFO, ''Sample extracted files:'')
           # map (\<lambda>i. (INFO, ''  '' @ str_nat (i + 1) @ ''. '' @ names ! i)) [0..<min 5 (length names)]
           @ (if length names > 5
              then [(INFO, ''  ... and '' @ str_nat (length names - 5) @ '' more files'')]
              else []))"

section \<open>Sample collaborators and worlds\<close>

text \<open>A world with no files, no requests made and nothing logged.\<close>

definition empty_world :: world where
  "empty_world = \<lparr>fs = Map.empty, requests = [], logs = []\<rparr>"

text \<open>
  Collaborators and worlds to run the module on.  \<open>sample_env\<close> has a server that
  answers every request with an HTML error page and an archive reader that
  knows one archive of two members; \<open>lenient_env\<close> has a reader that finds an
  archive in every file.  \<open>file_world p bs\<close> holds one file.
\<close>

definition sample_env :: env where
  "sample_env =
     \<lparr>net = (\<lambda>url k. NetOk ''<html>Not Found</html>'' ''Content-Type: text/html''),
      zip_entries = (\<lambda>bs. if bs = ''PK-two'' then Inr [(''a.txt'', Member ''A''), (''d/b.txt'', Member ''B'')]
                         else Inl (BadZipFile ''File is not a zip file'')),
      dir_size = 4096,
      get_size = (\<lambda>n. ''~ '' @ str_nat (n div 1024) @ '' KB''),
      decode_text = (\<lambda>bs n. take n bs)\<rparr>"

definition lenient_env :: env where
  "lenient_env = sample_env\<lparr>zip_entries := (\<lambda>bs. Inr [(''a.txt'', Member ''A'')])\<rparr>"

definition file_world :: "string \<Rightarrow> bytes \<Rightarrow> world" where
  "file_world p bs = \<lparr>fs = [p \<mapsto> File bs], requests = [], logs = []\<rparr>"

definition sample_config :: config where
  "sample_config =
     \<lparr>source_URL = ''https://github.com/org/repo/blob/main/data.zip'',
      local_data_file = ''/tmp/d.zip'',
      unzip_dir = ''/tmp/out''\<rparr>"

text \<open>
  An archive of seven members, two of them in a directory of the archive, and
  a reader that finds it in every file.
\<close>

definition seven_entries :: "(string \<times> member) list" where
  "seven_entries =
     [(''f1.txt'', Member ''1''), (''f2.txt'', Member ''2''), (''f3.txt'', Member ''3''),
      (''f4.txt'', Member ''4''), (''f5.txt'', Member ''5''), (''sub/f6.txt'', Member ''6''),
      (''sub/f7.txt'', Member ''7'')]"

definition seven_env :: env where
  "seven_env = sample_env\<lparr>zip_entries := (\<lambda>bs. Inr seven_entries)\<rparr>"


text \<open>
  A configuration whose destination has no directory part, and an archive
  with a member named outside the target directory.
\<close>

definition bare_config :: config where
  "bare_config = sample_config\<lparr>local_data_file := ''d.zip''\<rparr>"

definition escaping_env :: env where
  "escaping_env = sample_env\<lparr>zip_entries := (\<lambda>bs. Inr [(''../evil.txt'', Member ''E'')])\<rparr>"

text \<open>An archive reader that meets a format version it does not know.\<close>

definition later_version_env :: env where
  "later_version_env = sample_env\<lparr>zip_entries := (\<lambda>bs. Inl (NotImplementedError ''zip file version 9.9''))\<rparr>"

section \<open>Properties of the string operations\<close>

lemma str_contains_iff: "str_contains sub s \<longleftrightarrow> (\<exists>pre post. s = pre @ sub @ post)"
proof (induction s)
  case Nil
  then show ?case by auto
next
  case (Cons c cs)
  show ?case
  proof
    assume "str_contains sub (c # cs)"
    then consider "prefix sub (c # cs)" | "str_contains sub cs" by auto
    then show "\<exists>pre post. c # cs = pre @ sub @ post"
    proof cases
      case 1
      then obtain post where "c # cs = sub @ post" by (auto simp: prefix_def)
      then have "c # cs = [] @ sub @ post" by simp
      then show ?thesis by blast
    next
      case 2
      with Cons.IH obtain pre post where "cs = pre @ sub @ post" by blast
      then have "c # cs = (c # pre) @ sub @ post" by simp
      then show ?thesis by blast
    qed
  next
    assume "\<exists>pre post. c # cs = pre @ sub @ post"
    then obtain pre post where eq: "c # cs = pre @ sub @ post" by blast
    show "str_contains sub (c # cs)"
    proof (cases pre)
      case Nil
      with eq have "prefix sub (c # cs)" by (simp add: prefix_def)
      then show ?thesis by simp
    next
      case (Cons a pre')
      with eq have "cs = pre' @ sub @ post" by simp
      with Cons.IH have "str_contains sub cs" by blast
      then show ?thesis by simp
    qed
  qed
qed

lemma replace_scan_absent: "\<not> str_contains old s \<Longrightarrow> replace_scan old new s = s"
  by (induction s) auto

lemma prefix_app_short: "prefix xs (ys @ zs) \<Longrightarrow> length xs \<le> length ys \<Longrightarrow> prefix xs ys"
  by (metis prefix_append prefix_order.order_refl append_eq_append_conv_if prefix_def append_take_drop_id)

lemma replace_scan_first:
  assumes "old \<noteq> []" and "\<not> str_contains old (pre @ butlast old)"
  shows "replace_scan old new (pre @ old @ post) = pre @ new @ replace_scan old new post"
  using assms(2)
proof (induction pre)
  case Nil
  from assms(1) obtain c cs where "old @ post = c # cs" by (cases old) auto
  moreover have "prefix old (old @ post)" by simp
  ultimately show ?case using assms(1)
    by (metis append_Nil append_eq_conv_conj replace_scan.simps(2))
next
  case (Cons a pre)
  have np: "\<not> prefix old ((a # pre) @ butlast old)" and nc: "\<not> str_contains old (pre @ butlast old)"
    using Cons.prems by auto
  have "\<not> prefix old (a # pre @ old @ post)"
  proof
    assume p: "prefix old (a # pre @ old @ post)"
    have "a # pre @ old @ post = ((a # pre) @ butlast old) @ ([last old] @ post)"
      using assms(1) by simp
    with p have "prefix old (((a # pre) @ butlast old) @ ([last old] @ post))" by simp
    moreover have "length old \<le> length ((a # pre) @ butlast old)" using assms(1) by (cases old) auto
    ultimately have "prefix old ((a # pre) @ butlast old)" by (rule prefix_app_short)
    with np show False by blast
  qed
  then show ?case using Cons.IH[OF nc] by simp
qed

lemma digit_char_value: "d < 10 \<Longrightarrow> of_char (digit_char d) = (48 + d :: nat)"
  by (simp add: digit_char_def)

lemma decimal_value_str_nat: "decimal_value (str_nat n) = n"
proof (induction n rule: str_nat.induct)
  case (1 n)
  show ?case
  proof (cases "n < 10")
    case True
    then show ?thesis
      by (subst str_nat.simps) (simp add: decimal_value_def digit_char_value)
  next
    case False
    with 1 have ih: "decimal_value (str_nat (n div 10)) = n div 10" by simp
    have "n mod 10 < 10" by simp
    then have "of_char (digit_char (n mod 10)) = (48 + n mod 10 :: nat)" by (rule digit_char_value)
    with False ih show ?thesis
      by (subst str_nat.simps) (simp add: decimal_value_def)
  qed
qed

section \<open>Properties of \<open>_fix_github_url\<close>\<close>

text \<open>
  C5, as the specification states it, fails.  The source does not look at the
  host of the URL: it tests whether \<open>github.com\<close> and \<open>/blob/\<close> occur anywhere
  in the string.  The URL below is on the host \<open>example.org\<close> and names
  \<open>github.com\<close> in its query only; it is rewritten all the same, its \<open>/blob/\<close>
  segment is lost and the query is changed.
\<close>

theorem fix_github_url_other_host:
  "url_host ''https://example.org/blob/x?ref=github.com'' = ''example.org''
   \<and> fst (fix_github_url ''https://example.org/blob/x?ref=github.com'' empty_world)
       = ''https://example.org/x?ref=raw.githubusercontent.com''
   \<and> fst (fix_github_url ''https://example.org/blob/x?ref=github.com'' empty_world)
       \<noteq> ''https://example.org/blob/x?ref=github.com''"
  by (simp add: url_host_def fix_github_url_def str_replace_def Let_def)

text \<open>
  C5, amended.  A URL in which \<open>github.com\<close> or \<open>/blob/\<close> does not occur is
  returned as it is, and nothing is logged.  A URL in which \<open>github.com\<close> occurs
  once and \<open>/blob/\<close> occurs once, after it (the form of a blob link on the known
  host), comes back with \<open>raw.githubusercontent.com\<close> in place of \<open>github.com\<close>
  and with the segment \<open>/blob/\<close> reduced to a slash.  The four conditions on
  \<open>pre\<close>, \<open>mid\<close> and \<open>rest\<close> say that there is no further occurrence of either
  text, also none that the first replacement would create.
\<close>

theorem fix_github_url_spec:
  "(\<not> ((\<exists>a b. url = a @ ''github.com'' @ b) \<and> (\<exists>a b. url = a @ ''/blob/'' @ b))
      \<longrightarrow> fix_github_url url w = (url, w))
   \<and> (url = pre @ ''github.com'' @ mid @ ''/blob/'' @ rest
       \<and> \<not> str_contains ''github.com'' (pre @ ''github.co'')
       \<and> \<not> str_contains ''github.com'' (mid @ ''/blob/'' @ rest)
       \<and> \<not> str_contains ''/blob/'' (pre @ ''raw.githubusercontent.com'' @ mid @ ''/blob'')
       \<and> \<not> str_contains ''/blob/'' rest
      \<longrightarrow> fst (fix_github_url url w) = pre @ ''raw.githubusercontent.com'' @ mid @ ''/'' @ rest)"
proof (intro conjI impI)
  assume "\<not> ((\<exists>a b. url = a @ ''github.com'' @ b) \<and> (\<exists>a b. url = a @ ''/blob/'' @ b))"
  then have "\<not> (str_contains ''github.com'' url \<and> str_contains ''/blob/'' url)"
    unfolding str_contains_iff by blast
  then show "fix_github_url url w = (url, w)"
    by (auto simp: fix_github_url_def)
next
  assume h: "url = pre @ ''github.com'' @ mid @ ''/blob/'' @ rest
       \<and> \<not> str_contains ''github.com'' (pre @ ''github.co'')
       \<and> \<not> str_contains ''github.com'' (mid @ ''/blob/'' @ rest)
       \<and> \<not> str_contains ''/blob/'' (pre @ ''raw.githubusercontent.com'' @ mid @ ''/blob'')
       \<and> \<not> str_contains ''/blob/'' rest"
  then have url: "url = pre @ ''github.com'' @ (mid @ ''/blob/'' @ rest)" by simp
  have c1: "str_contains ''github.com'' url"
    unfolding str_contains_iff using url by blast
  have "url = (pre @ ''github.com'' @ mid) @ ''/blob/'' @ rest" using h by simp
  then have c2: "str_contains ''/blob/'' url"
    unfolding str_contains_iff by blast
  have "replace_scan ''github.com'' ''raw.githubusercontent.com'' url =
        pre @ ''raw.githubusercontent.com'' @ replace_scan ''github.com'' ''raw.githubusercontent.com'' (mid @ ''/blob/'' @ rest)"
    unfolding url using h by (intro replace_scan_first) simp_all
  also have "\<dots> = (pre @ ''raw.githubusercontent.com'' @ mid) @ ''/blob/'' @ rest"
    using h by (simp add: replace_scan_absent)
  finally have r1: "str_replace ''github.com'' ''raw.githubusercontent.com'' url =
      (pre @ ''raw.githubusercontent.com'' @ mid) @ ''/blob/'' @ rest"
    by (simp add: str_replace_def)
  have "replace_scan ''/blob/'' ''/'' ((pre @ ''raw.githubusercontent.com'' @ mid) @ ''/blob/'' @ rest) =
        (pre @ ''raw.githubusercontent.com'' @ mid) @ ''/'' @ replace_scan ''/blob/'' ''/'' rest"
    using h by (intro replace_scan_first) simp_all
  also have "\<dots> = pre @ ''raw.githubusercontent.com'' @ mid @ ''/'' @ rest"
    using h by (simp add: replace_scan_absent)
  finally have r2: "str_replace ''/blob/'' ''/'' ((pre @ ''raw.githubusercontent.com'' @ mid) @ ''/blob/'' @ rest) =
      pre @ ''raw.githubusercontent.com'' @ mid @ ''/'' @ rest"
    by (simp add: str_replace_def)
  show "fst (fix_github_url url w) = pre @ ''raw.githubusercontent.com'' @ mid @ ''/'' @ rest"
    using c1 c2 r1 r2 by (simp add: fix_github_url_def Let_def)
qed

theorem fix_github_url_spec_witness:
  "fst (fix_github_url ''https://github.com/org/repo/blob/main/data.zip'' empty_world)
     = ''https://raw.githubusercontent.com/org/repo/main/data.zip''
   \<and> fix_github_url ''https://example.org/data.zip'' empty_world = (''https://example.org/data.zip'', empty_world)
   \<and> fix_github_url ''https://github.com/org/repo/raw/main/data.zip'' empty_world
       = (''https://github.com/org/repo/raw/main/data.zip'', empty_world)"
proof -
  let ?u = "''https://github.com/org/repo/blob/main/data.zip''"
  let ?v = "''https://example.org/data.zip''"
  let ?r = "''https://github.com/org/repo/raw/main/data.zip''"
  have h: "?u = ''https://'' @ ''github.com'' @ ''/org/repo'' @ ''/blob/'' @ ''main/data.zip''
       \<and> \<not> str_contains ''github.com'' (''https://'' @ ''github.co'')
       \<and> \<not> str_contains ''github.com'' (''/org/repo'' @ ''/blob/'' @ ''main/data.zip'')
       \<and> \<not> str_contains ''/blob/'' (''https://'' @ ''raw.githubusercontent.com'' @ ''/org/repo'' @ ''/blob'')
       \<and> \<not> str_contains ''/blob/'' ''main/data.zip''"
    by simp
  have "fst (fix_github_url ?u empty_world)
          = ''https://'' @ ''raw.githubusercontent.com'' @ ''/org/repo'' @ ''/'' @ ''main/data.zip''"
    using fix_github_url_spec [of ?u empty_world "''https://''" "''/org/repo''" "''main/data.zip''"] h
    by blast
  then have 1: "fst (fix_github_url ?u empty_world) = ''https://raw.githubusercontent.com/org/repo/main/data.zip''"
    by simp
  have "\<not> str_contains ''github.com'' ?v" by simp
  then have e: "\<not> ((\<exists>a b. ?v = a @ ''github.com'' @ b) \<and> (\<exists>a b. ?v = a @ ''/blob/'' @ b))"
    unfolding str_contains_iff by blast
  have 2: "fix_github_url ?v empty_world = (?v, empty_world)"
    using fix_github_url_spec [of ?v empty_world] e by blast
  have "\<not> str_contains ''/blob/'' ?r" by simp
  then have e': "\<not> ((\<exists>a b. ?r = a @ ''github.com'' @ b) \<and> (\<exists>a b. ?r = a @ ''/blob/'' @ b))"
    unfolding str_contains_iff by blast
  have 3: "fix_github_url ?r empty_world = (?r, empty_world)"
    using fix_github_url_spec [of ?r empty_world] e' by blast
  show ?thesis using 1 2 3 by blast
qed

section \<open>Properties of \<open>_validate_zip_file\<close>\<close>

text \<open>Logging touches nothing but the log.\<close>

lemma node_at_logger [simp]: "node_at (logger lvl msg w) p = node_at w p"
  by (simp add: node_at_def logger_def)

lemma fs_logger [simp]: "fs (logger lvl msg w) = fs w"
  by (simp add: logger_def)

lemma requests_logger [simp]: "requests (logger lvl msg w) = requests w"
  by (simp add: logger_def)

lemma logs_logger [simp]: "logs (logger lvl msg w) = logs w @ [(lvl, msg)]"
  by (simp add: logger_def)

lemma path_exists_logger [simp]: "path_exists p (logger lvl msg w) = path_exists p w"
  by (simp add: path_exists_def)

lemma prefix_take_iff:
  assumes "length xs \<le> n"
  shows "prefix xs (take n ys) \<longleftrightarrow> prefix xs ys"
proof
  assume "prefix xs (take n ys)"
  then show "prefix xs ys"
    using take_is_prefix [of n ys] by (rule prefix_order.trans)
next
  assume p: "prefix xs ys"
  then have "length xs \<le> length ys" by (rule prefix_length_le)
  with assms have "length xs \<le> length (take n ys)" by simp
  moreover from p have "prefix xs (take n ys @ drop n ys)" by simp
  ultimately show "prefix xs (take n ys)" by (rule prefix_app_short [rotated])
qed

lemma validate_absent:
  "node_at w p = None \<Longrightarrow>
   validate_zip_file E p w = (Inl (FileNotFoundError (''File not found: '' @ p)), w)"
  by (simp add: validate_zip_file_def path_exists_def)

lemma validate_Dir:
  "node_at w p = Some Dir \<Longrightarrow>
   validate_zip_file E p w =
     (if dir_size E = 0 then (Inl (ValueError ''Downloaded file is empty''), w) else (Inl (EISDIR p), w))"
  by (simp add: validate_zip_file_def path_exists_def getsize_def read_bytes_def)

lemma validate_File:
  assumes "node_at w p = Some (File bs)"
  shows "validate_zip_file E p w =
     (if bs = [] then (Inl (ValueError ''Downloaded file is empty''), w)
      else if prefix ''<!DOCTYPE'' bs \<or> prefix ''<html'' bs then
        (Inl (ValueError ''Downloaded HTML page instead of ZIP file. Check the URL.''),
         logger ERROR (''HTML content: '' @ decode_text E bs 300)
           (logger ERROR ''Downloaded HTML page instead of ZIP file'' w))
      else if \<not> prefix ''PK'' bs then
        (Inl (ValueError (''File is not a ZIP file. First bytes: '' @ bytes_hex (take 20 bs))), w)
      else
        (case zip_entries E bs of
           Inl e \<Rightarrow>
            (Inl (if exn_class e = ''BadZipFile''
                  then BadZipFile (''Corrupted ZIP file: '' @ exn_str e) else e), w)
         | Inr entries \<Rightarrow>
            (Inr True, logger INFO (''ZIP file is valid with '' @ str_nat (length entries) @ '' files'') w)))"
proof -
  have p1: "prefix ''<!DOCTYPE'' (take 100 bs) = prefix ''<!DOCTYPE'' bs"
    by (rule prefix_take_iff) simp
  have p2: "prefix ''<html'' (take 100 bs) = prefix ''<html'' bs"
    by (rule prefix_take_iff) simp
  have p3: "prefix ''PK'' (take 100 bs) = prefix ''PK'' bs"
    by (rule prefix_take_iff) simp
  have c: "(case e of
              BadZipFile msg \<Rightarrow> (Inl (BadZipFile (''Corrupted ZIP file: '' @ msg)), w)
            | _ \<Rightarrow> (Inl e, w))
           = (Inl (if exn_class e = ''BadZipFile''
                   then BadZipFile (''Corrupted ZIP file: '' @ exn_str e) else e), w)" for e :: exn
    by (cases e) simp_all
  show ?thesis
    using assms
    by (simp add: validate_zip_file_def path_exists_def getsize_def read_bytes_def read_text_def
          zip_open_def p1 p2 p3 c Let_def split: sum.splits)
qed


lemma node_at_file_world: "p \<noteq> [] \<Longrightarrow> \<not> is_root p \<Longrightarrow> node_at (file_world p bs) p = Some (File bs)"
  by (simp add: node_at_def file_world_def)

lemma length_bytes_hex: "length (bytes_hex bs) = 2 * length bs"
  by (induction bs) (simp_all add: bytes_hex_def)

lemma validate_accepted:
  assumes "node_at w p = Some (File bs)" and "prefix ''PK'' bs" and "zip_entries E bs = Inr entries"
  shows "validate_zip_file E p w =
           (Inr True, logger INFO (''ZIP file is valid with '' @ str_nat (length entries) @ '' files'') w)"
proof -
  from assms(2) have "bs \<noteq> []" "\<not> prefix ''<!DOCTYPE'' bs" "\<not> prefix ''<html'' bs"
    by (auto simp: prefix_def)
  then show ?thesis
    using validate_File [OF assms(1), of E] assms(2,3) by simp
qed


text \<open>
  C6.  The checks run in the order of the source and an earlier check wins:
  an existing file of zero bytes fails with the empty-file error, the world
  untouched, whatever the archive reader would say about it; a file that
  begins with \<open><!DOCTYPE\<close> or \<open><html\<close> fails with the wrong-content error after
  the two diagnostic lines, whatever follows the prefix and whatever the
  archive reader would say.
\<close>

theorem validate_check_order:
  assumes "node_at w p = Some (File bs)"
  shows "(bs = [] \<longrightarrow>
            validate_zip_file E p w = (Inl (ValueError ''Downloaded file is empty''), w))
       \<and> (prefix ''<!DOCTYPE'' bs \<or> prefix ''<html'' bs \<longrightarrow>
            validate_zip_file E p w =
              (Inl (ValueError ''Downloaded HTML page instead of ZIP file. Check the URL.''),
               logger ERROR (''HTML content: '' @ decode_text E bs 300)
                 (logger ERROR ''Downloaded HTML page instead of ZIP file'' w)))"
proof (intro conjI impI)
  assume "bs = []"
  then show "validate_zip_file E p w = (Inl (ValueError ''Downloaded file is empty''), w)"
    using validate_File [OF assms, of E] by simp
next
  assume h: "prefix ''<!DOCTYPE'' bs \<or> prefix ''<html'' bs"
  then have "bs \<noteq> []" by auto
  with h show "validate_zip_file E p w =
              (Inl (ValueError ''Downloaded HTML page instead of ZIP file. Check the URL.''),
               logger ERROR (''HTML content: '' @ decode_text E bs 300)
                 (logger ERROR ''Downloaded HTML page instead of ZIP file'' w))"
    using validate_File [OF assms, of E] by simp
qed

theorem validate_check_order_witness:
  "validate_zip_file lenient_env ''/tmp/d.zip'' (file_world ''/tmp/d.zip'' [])
     = (Inl (ValueError ''Downloaded file is empty''), file_world ''/tmp/d.zip'' [])
   \<and> fst (validate_zip_file lenient_env ''/tmp/d.zip'' (file_world ''/tmp/d.zip'' ''<html>PK''))
     = Inl (ValueError ''Downloaded HTML page instead of ZIP file. Check the URL.'')"
proof -
  have n: "\<And>bs. node_at (file_world ''/tmp/d.zip'' bs) ''/tmp/d.zip'' = Some (File bs)"
    by (rule node_at_file_world) (simp_all add: is_root_def)
  have 1: "validate_zip_file lenient_env ''/tmp/d.zip'' (file_world ''/tmp/d.zip'' [])
     = (Inl (ValueError ''Downloaded file is empty''), file_world ''/tmp/d.zip'' [])"
    using validate_check_order [OF n, of "[]" lenient_env] by blast
  have "prefix ''<!DOCTYPE'' ''<html>PK'' \<or> prefix ''<html'' ''<html>PK''" by simp
  then have 2: "fst (validate_zip_file lenient_env ''/tmp/d.zip'' (file_world ''/tmp/d.zip'' ''<html>PK''))
     = Inl (ValueError ''Downloaded HTML page instead of ZIP file. Check the URL.'')"
    using validate_check_order [OF n, of "''<html>PK''" lenient_env] by simp
  show ?thesis using 1 2 by blast
qed


text \<open>
  C10.  On an existing, non-empty file of fewer than 100 bytes the read of the
  signature returns the whole file, and when the content starts neither like
  an HTML page nor with \<open>PK\<close> the validation fails with the not-an-archive
  error; its message ends with the hexadecimal dump of the first 20 bytes, or
  of the whole file when it is shorter: two digits for each byte.
\<close>

theorem validate_short_file:
  assumes "node_at w p = Some (File bs)" and "bs \<noteq> []" and "length bs < 100"
    and "\<not> prefix ''<!DOCTYPE'' bs" and "\<not> prefix ''<html'' bs" and "\<not> prefix ''PK'' bs"
  shows "read_bytes p 100 w = Inr bs
       \<and> validate_zip_file E p w =
           (Inl (ValueError (''File is not a ZIP file. First bytes: '' @ bytes_hex (take 20 bs))), w)
       \<and> length (bytes_hex (take 20 bs)) = 2 * min 20 (length bs)"
proof (intro conjI)
  show "read_bytes p 100 w = Inr bs"
    using assms(1,3) by (simp add: read_bytes_def)
  show "validate_zip_file E p w =
           (Inl (ValueError (''File is not a ZIP file. First bytes: '' @ bytes_hex (take 20 bs))), w)"
    using validate_File [OF assms(1), of E] assms(2,4,5,6) by simp
  show "length (bytes_hex (take 20 bs)) = 2 * min 20 (length bs)"
    by (simp add: length_bytes_hex min.commute)
qed

theorem validate_short_file_witness:
  "read_bytes ''/tmp/d.zip'' 100 (file_world ''/tmp/d.zip'' ''x'') = Inr ''x''
   \<and> validate_zip_file sample_env ''/tmp/d.zip'' (file_world ''/tmp/d.zip'' ''x'')
       = (Inl (ValueError ''File is not a ZIP file. First bytes: 78''), file_world ''/tmp/d.zip'' ''x'')"
proof -
  have n: "node_at (file_world ''/tmp/d.zip'' ''x'') ''/tmp/d.zip'' = Some (File ''x'')"
    by (rule node_at_file_world) (simp_all add: is_root_def)
  have h: "bytes_hex (take 20 ''x'') = ''78''"
    by code_simp
  show ?thesis
    using validate_short_file [OF n, of sample_env] h by simp
qed


text \<open>
  C7.  On an existing file that starts with \<open>PK\<close> (so it is not empty) and that
  the archive reader accepts, the validation returns \<open>True\<close> and logs one line
  that gives the number of names in the archive; the digits logged, read as a
  decimal number, are that count.
\<close>

theorem validate_ok_reports_count:
  assumes "node_at w p = Some (File bs)" and "prefix ''PK'' bs" and "zip_entries E bs = Inr entries"
  shows "validate_zip_file E p w =
           (Inr True, logger INFO (''ZIP file is valid with '' @ str_nat (length entries) @ '' files'') w)
       \<and> decimal_value (str_nat (length entries)) = length (map fst entries)"
proof
  from assms(2) obtain rest where "bs = ''PK'' @ rest" by (auto simp: prefix_def)
  then have "bs \<noteq> []" "\<not> prefix ''<!DOCTYPE'' bs" "\<not> prefix ''<html'' bs"
    by simp_all
  then show "validate_zip_file E p w =
           (Inr True, logger INFO (''ZIP file is valid with '' @ str_nat (length entries) @ '' files'') w)"
    using validate_File [OF assms(1), of E] assms(2,3) by simp
  show "decimal_value (str_nat (length entries)) = length (map fst entries)"
    by (simp add: decimal_value_str_nat)
qed

theorem validate_ok_reports_count_witness:
  "validate_zip_file sample_env ''/tmp/d.zip'' (file_world ''/tmp/d.zip'' ''PK-two'')
     = (Inr True, logger INFO ''ZIP file is valid with 2 files'' (file_world ''/tmp/d.zip'' ''PK-two''))"
proof -
  have n: "node_at (file_world ''/tmp/d.zip'' ''PK-two'') ''/tmp/d.zip'' = Some (File ''PK-two'')"
    by (rule node_at_file_world) (simp_all add: is_root_def)
  have z: "zip_entries sample_env ''PK-two'' = Inr [(''a.txt'', Member ''A''), (''d/b.txt'', Member ''B'')]"
    by (simp add: sample_env_def)
  have s: "str_nat (length [(''a.txt'', Member ''A''), (''d/b.txt'', Member ''B'')]) = ''2''"
    by code_simp
  show ?thesis
    using validate_ok_reports_count [OF n _ z] s by simp
qed

text \<open>
  C3, as the specification states it, fails: the three failures below (an
  empty file, an HTML page, a file without the \<open>PK\<close> signature) are three of
  the five failure modes, and the source raises all three as the same class,
  \<open>ValueError\<close>.  They differ in the message only.
\<close>

theorem validate_same_class:
  "fst (validate_zip_file sample_env ''/tmp/d.zip'' (file_world ''/tmp/d.zip'' []))
     = Inl (ValueError ''Downloaded file is empty'')
   \<and> fst (validate_zip_file sample_env ''/tmp/d.zip'' (file_world ''/tmp/d.zip'' ''<html></html>''))
     = Inl (ValueError ''Downloaded HTML page instead of ZIP file. Check the URL.'')
   \<and> fst (validate_zip_file sample_env ''/tmp/d.zip'' (file_world ''/tmp/d.zip'' ''x''))
     = Inl (ValueError ''File is not a ZIP file. First bytes: 78'')
   \<and> exn_class (ValueError ''Downloaded file is empty'')
     = exn_class (ValueError ''Downloaded HTML page instead of ZIP file. Check the URL.'')
   \<and> exn_class (ValueError ''Downloaded HTML page instead of ZIP file. Check the URL.'')
     = exn_class (ValueError ''File is not a ZIP file. First bytes: 78'')"
proof -
  have n: "\<And>bs. node_at (file_world ''/tmp/d.zip'' bs) ''/tmp/d.zip'' = Some (File bs)"
    by (rule node_at_file_world) (simp_all add: is_root_def)
  have h: "bytes_hex (take 20 ''x'') = ''78''"
    by code_simp
  have 1: "fst (validate_zip_file sample_env ''/tmp/d.zip'' (file_world ''/tmp/d.zip'' []))
     = Inl (ValueError ''Downloaded file is empty'')"
    using validate_File [OF n [of "[]"], of sample_env] by simp
  have 2: "fst (validate_zip_file sample_env ''/tmp/d.zip'' (file_world ''/tmp/d.zip'' ''<html></html>''))
     = Inl (ValueError ''Downloaded HTML page instead of ZIP file. Check the URL.'')"
    using validate_File [OF n [of "''<html></html>''"], of sample_env] by simp
  have 3: "fst (validate_zip_file sample_env ''/tmp/d.zip'' (file_world ''/tmp/d.zip'' ''x''))
     = Inl (ValueError ''File is not a ZIP file. First bytes: 78'')"
    using validate_File [OF n [of "''x''"], of sample_env] h by simp
  show ?thesis using 1 2 3 by simp
qed

text \<open>
  C3, amended.  What \<open>_validate_zip_file\<close> returns or raises is decided by
  what the path names, in this order.  It has five failures of its own, under
  three classes: \<open>FileNotFoundError\<close> for a missing path; \<open>ValueError\<close> for an
  empty file, for a file that begins like an HTML page and for a file without
  the \<open>PK\<close> signature, with three different messages; and \<open>BadZipFile\<close>, with
  the message extended, when the archive reader raises \<open>BadZipFile\<close>.  Every
  other exception passes through as it is: the \<open>IsADirectoryError\<close> of reading
  a directory, and whatever else the archive reader raises.  A directory that
  reports the size zero counts as an empty file.
\<close>

theorem validate_error_kinds:
  "fst (validate_zip_file E p w) =
     (case node_at w p of
        None \<Rightarrow> Inl (FileNotFoundError (''File not found: '' @ p))
      | Some Dir \<Rightarrow>
          (if dir_size E = 0 then Inl (ValueError ''Downloaded file is empty'')
           else Inl (IsADirectoryError (os_msg ''21'' ''Is a directory'' p)))
      | Some (File bs) \<Rightarrow>
          (if bs = [] then Inl (ValueError ''Downloaded file is empty'')
           else if prefix ''<!DOCTYPE'' bs \<or> prefix ''<html'' bs then
             Inl (ValueError ''Downloaded HTML page instead of ZIP file. Check the URL.'')
           else if \<not> prefix ''PK'' bs then
             Inl (ValueError (''File is not a ZIP file. First bytes: '' @ bytes_hex (take 20 bs)))
           else
             (case zip_entries E bs of
                Inl e \<Rightarrow>
                  (if exn_class e = ''BadZipFile''
                   then Inl (BadZipFile (''Corrupted ZIP file: '' @ exn_str e))
                   else Inl e)
              | Inr entries \<Rightarrow> Inr True)))"
proof (cases "node_at w p")
  case None
  then show ?thesis by (simp add: validate_absent)
next
  case (Some nd)
  show ?thesis
  proof (cases nd)
    case Dir
    with Some show ?thesis by (simp add: validate_Dir EISDIR_def)
  next
    case (File bs)
    with Some have f: "node_at w p = Some (File bs)" by simp
    show ?thesis
      using f by (simp add: validate_File split: sum.splits)
  qed
qed

theorem validate_error_kinds_witness:
  "fst (validate_zip_file sample_env ''/tmp/d.zip'' empty_world)
     = Inl (FileNotFoundError ''File not found: /tmp/d.zip'')
   \<and> fst (validate_zip_file sample_env ''/tmp/d.zip'' (file_world ''/tmp/d.zip'' ''PK-bad''))
     = Inl (BadZipFile ''Corrupted ZIP file: File is not a zip file'')
   \<and> fst (validate_zip_file later_version_env ''/tmp/d.zip'' (file_world ''/tmp/d.zip'' ''PK-v99''))
     = Inl (NotImplementedError ''zip file version 9.9'')
   \<and> fst (validate_zip_file sample_env ''/tmp'' (file_world ''/tmp/d.zip'' ''PK-bad''))
     = Inl (FileNotFoundError ''File not found: /tmp'')"
proof -
  let ?p = "''/tmp/d.zip''"
  have n: "\<And>bs. node_at (file_world ?p bs) ?p = Some (File bs)"
    by (rule node_at_file_world) (simp_all add: is_root_def)
  have n0: "node_at empty_world ?p = None"
    by (simp add: node_at_def empty_world_def is_root_def)
  have n1: "node_at (file_world ?p ''PK-bad'') ''/tmp'' = None"
    by (simp add: node_at_def file_world_def is_root_def)
  have 1: "fst (validate_zip_file sample_env ?p empty_world)
             = Inl (FileNotFoundError ''File not found: /tmp/d.zip'')"
    using validate_error_kinds [of sample_env ?p empty_world] n0 by simp
  have 2: "fst (validate_zip_file sample_env ?p (file_world ?p ''PK-bad''))
             = Inl (BadZipFile ''Corrupted ZIP file: File is not a zip file'')"
    using validate_error_kinds [of sample_env ?p "file_world ?p ''PK-bad''"] n [of "''PK-bad''"]
    by (simp add: sample_env_def)
  have 3: "fst (validate_zip_file later_version_env ?p (file_world ?p ''PK-v99''))
             = Inl (NotImplementedError ''zip file version 9.9'')"
    using validate_error_kinds [of later_version_env ?p "file_world ?p ''PK-v99''"] n [of "''PK-v99''"]
    by (simp add: later_version_env_def)
  have 4: "fst (validate_zip_file sample_env ''/tmp'' (file_world ?p ''PK-bad''))
             = Inl (FileNotFoundError ''File not found: /tmp'')"
    using validate_error_kinds [of sample_env "''/tmp''" "file_world ?p ''PK-bad''"] n1 by simp
  show ?thesis using 1 2 3 4 by simp
qed

section \<open>Properties of \<open>extract_zip_file\<close>\<close>

text \<open>The validation reads the file system and writes to the log only.\<close>

lemma validate_frame:
  assumes "validate_zip_file E p w = (r, w')"
  shows "fs w' = fs w \<and> requests w' = requests w"
proof (cases "node_at w p")
  case None
  with assms show ?thesis by (simp add: validate_absent)
next
  case (Some nd)
  show ?thesis
  proof (cases nd)
    case (File bs)
    with Some assms show ?thesis
      by (auto simp: validate_File split: if_splits sum.splits)
  next
    case Dir
    with Some assms show ?thesis
      by (auto simp: validate_Dir split: if_splits)
  qed
qed

lemma fs_extract_except [simp]: "fs (extract_except e w) = fs w"
  by (cases e) (simp_all add: extract_except_def)

lemma requests_extract_except [simp]: "requests (extract_except e w) = requests w"
  by (cases e) (simp_all add: extract_except_def)

lemma node_at_fs_cong: "fs w' = fs w \<Longrightarrow> node_at w' p = node_at w p"
  by (simp add: node_at_def)


text \<open>
  C9.  The archive is validated before anything else is done.  When the
  validation fails (missing, empty, HTML, not an archive, corrupt, or any other
  error), the same exception leaves \<open>extract_zip_file\<close>, and the file system is
  the one before the call: the target directory has not been created and no
  member has been written.  No request is made either; only the log grows.
\<close>

theorem extract_invalid_archive:
  assumes "validate_zip_file E (local_data_file c) w = (Inl e, w1)"
  shows "fst (extract_zip_file E c w) = Inl e
       \<and> fs (snd (extract_zip_file E c w)) = fs w
       \<and> node_at (snd (extract_zip_file E c w)) (unzip_dir c) = node_at w (unzip_dir c)
       \<and> requests (snd (extract_zip_file E c w)) = requests w"
proof -
  have x: "extract_zip_file E c w = (Inl e, extract_except e w1)"
    using assms by (simp add: extract_zip_file_def extract_try_def)
  from validate_frame [OF assms] have f: "fs w1 = fs w" and r: "requests w1 = requests w"
    by simp_all
  have g: "fs (extract_except e w1) = fs w" using f by simp
  then have "node_at (extract_except e w1) (unzip_dir c) = node_at w (unzip_dir c)"
    by (rule node_at_fs_cong)
  then show ?thesis using x r g by simp
qed

theorem extract_invalid_archive_witness:
  "fst (extract_zip_file sample_env sample_config (file_world ''/tmp/d.zip'' ''PK-bad''))
     = Inl (BadZipFile ''Corrupted ZIP file: File is not a zip file'')
   \<and> node_at (snd (extract_zip_file sample_env sample_config (file_world ''/tmp/d.zip'' ''PK-bad''))) ''/tmp/out''
     = None"
proof -
  let ?w = "file_world ''/tmp/d.zip'' ''PK-bad''"
  have n: "node_at ?w ''/tmp/d.zip'' = Some (File ''PK-bad'')"
    by (rule node_at_file_world) (simp_all add: is_root_def)
  have v: "validate_zip_file sample_env (local_data_file sample_config) ?w
             = (Inl (BadZipFile ''Corrupted ZIP file: File is not a zip file''), ?w)"
    using validate_File [OF n, of sample_env] by (simp add: sample_env_def sample_config_def)
  have o: "node_at ?w (unzip_dir sample_config) = None"
    by (simp add: node_at_def file_world_def sample_config_def is_root_def)
  have u: "unzip_dir sample_config = ''/tmp/out''" by (simp add: sample_config_def)
  show ?thesis
    using extract_invalid_archive [OF v] o u by simp
qed

section \<open>Properties of the paths and of \<open>os.makedirs\<close>\<close>

text \<open>
  The head of a path is a prefix of it, and a proper one unless the path is
  empty or the root.  The head that \<open>os.makedirs\<close> recurses on is one of the
  directories above the path.
\<close>

lemma prefix_rev_dropWhile: "prefix (rev (dropWhile P (rev p))) p"
proof -
  have "rev p = takeWhile P (rev p) @ dropWhile P (rev p)" by simp
  then have "p = rev (dropWhile P (rev p)) @ rev (takeWhile P (rev p))"
    by (metis rev_append rev_rev_ident)
  then show ?thesis by (metis prefixI)
qed

lemma prefix_dirname: "prefix (dirname p) p"
proof -
  let ?h = "rev (dropWhile (\<lambda>c. c \<noteq> CHR ''/'') (rev p))"
  have 1: "prefix ?h p" by (rule prefix_rev_dropWhile)
  have "prefix (rev (dropWhile (\<lambda>c. c = CHR ''/'') (rev ?h))) ?h" by (rule prefix_rev_dropWhile)
  with 1 have 2: "prefix (rev (dropWhile (\<lambda>c. c = CHR ''/'') (rev ?h))) p"
    by (rule prefix_order.trans [rotated])
  show ?thesis
    using 1 2 by (simp add: dirname_def Let_def)
qed

lemma dirname_le: "length (dirname p) \<le> length p"
  using prefix_dirname by (rule prefix_length_le)

lemma prefix_same_length: "prefix xs ys \<Longrightarrow> length xs = length ys \<Longrightarrow> xs = ys"
  by (auto simp: prefix_def)

lemma dirname_same: "length (dirname p) = length p \<Longrightarrow> dirname p = p"
  using prefix_dirname [of p] by (rule prefix_same_length)

lemma dirname_Nil [simp]: "dirname [] = []"
  by (simp add: dirname_def)

lemma basename_Nil [simp]: "basename [] = []"
  by (simp add: basename_def)

lemma dirname_basename: "dirname p = p \<Longrightarrow> basename p = []"
proof -
  assume d: "dirname p = p"
  let ?t = "takeWhile (\<lambda>c. c \<noteq> CHR ''/'') (rev p)" and ?h = "dropWhile (\<lambda>c. c \<noteq> CHR ''/'') (rev p)"
  have s: "length ?t + length ?h = length p"
    using takeWhile_dropWhile_id [of "\<lambda>c. c \<noteq> CHR ''/''" "rev p"]
    by (metis length_append length_rev)
  have "length (dirname p) \<le> length ?h"
    using length_dropWhile_le [of "\<lambda>c. c = CHR ''/''" ?h] by (simp add: dirname_def Let_def)
  with d have l: "length p \<le> length ?h" by simp
  from s l have "length ?t = 0" by linarith
  then show ?thesis by (simp add: basename_def)
qed

lemma dirname_lt: "basename p \<noteq> [] \<Longrightarrow> length (dirname p) < length p"
  using dirname_le [of p] dirname_same [of p] dirname_basename [of p]
  by (cases "length (dirname p) = length p") auto

lemma dirname_shorter:
  assumes "dirname p = p"
  shows "p = [] \<or> is_root p"
proof -
  define h where "h = dropWhile (\<lambda>c. c \<noteq> CHR ''/'') (rev p)"
  have lh: "length h \<le> length p"
    unfolding h_def using length_dropWhile_le [of _ "rev p"] by simp
  have d: "dirname p =
      (if rev h \<noteq> [] \<and> \<not> list_all (\<lambda>c. c = CHR ''/'') (rev h)
       then rev (dropWhile (\<lambda>c. c = CHR ''/'') (rev (rev h))) else rev h)"
    by (simp only: dirname_def Let_def h_def)
  show ?thesis
  proof (cases "rev h \<noteq> [] \<and> \<not> list_all (\<lambda>c. c = CHR ''/'') (rev h)")
    case True
    with d have d': "dirname p = rev (dropWhile (\<lambda>c. c = CHR ''/'') h)"
      by simp
    from True obtain y ys where h: "h = y # ys" by (cases h) auto
    have "y = CHR ''/''"
      using hd_dropWhile [of "\<lambda>c. c \<noteq> CHR ''/''" "rev p"] h unfolding h_def [symmetric] by simp
    then have "dropWhile (\<lambda>c. c = CHR ''/'') h = dropWhile (\<lambda>c. c = CHR ''/'') ys"
      using h by simp
    then have "length (dropWhile (\<lambda>c. c = CHR ''/'') h) \<le> length ys"
      using length_dropWhile_le [of "\<lambda>c. c = CHR ''/''" ys] by simp
    then have "length (dirname p) < length p" using d' h lh by simp
    with assms show ?thesis by simp
  next
    case False
    from d have "dirname p = rev h" by (simp only: False if_False)
    with assms have p: "p = rev h" by simp
    from False have "rev h = [] \<or> list_all (\<lambda>c. c = CHR ''/'') (rev h)" by blast
    with p show ?thesis by (auto simp: is_root_def)
  qed
qed

lemma dirname_proper: "p \<noteq> [] \<Longrightarrow> \<not> is_root p \<Longrightarrow> length (dirname p) < length p"
  using dirname_le [of p] dirname_same [of p] dirname_shorter [of p]
  by (cases "length (dirname p) = length p") auto

text \<open>A head is empty, the root, or a path that does not end in a slash.\<close>

lemma dirname_form: "dirname p = [] \<or> is_root (dirname p) \<or> basename (dirname p) \<noteq> []"
proof -
  define h where "h = dropWhile (\<lambda>c. c \<noteq> CHR ''/'') (rev p)"
  have d: "dirname p =
      (if rev h \<noteq> [] \<and> \<not> list_all (\<lambda>c. c = CHR ''/'') (rev h)
       then rev (dropWhile (\<lambda>c. c = CHR ''/'') (rev (rev h))) else rev h)"
    by (simp only: dirname_def Let_def h_def)
  show ?thesis
  proof (cases "rev h \<noteq> [] \<and> \<not> list_all (\<lambda>c. c = CHR ''/'') (rev h)")
    case True
    with d have d': "dirname p = rev (dropWhile (\<lambda>c. c = CHR ''/'') h)" by simp
    from True have "\<not> list_all (\<lambda>c. c = CHR ''/'') h" by simp
    then have ne: "dropWhile (\<lambda>c. c = CHR ''/'') h \<noteq> []"
      by (simp add: list_all_iff)
    then have "hd (dropWhile (\<lambda>c. c = CHR ''/'') h) \<noteq> CHR ''/''"
      using hd_dropWhile [of "\<lambda>c. c = CHR ''/''" h] by simp
    with ne have "takeWhile (\<lambda>c. c \<noteq> CHR ''/'') (dropWhile (\<lambda>c. c = CHR ''/'') h) \<noteq> []"
      by (cases "dropWhile (\<lambda>c. c = CHR ''/'') h") auto
    then show ?thesis by (simp add: d' basename_def)
  next
    case False
    from d have "dirname p = rev h" by (simp only: False if_False)
    with False show ?thesis by (auto simp: is_root_def)
  qed
qed

lemma dirname_root: "is_root p \<Longrightarrow> dirname p = p"
proof -
  assume r: "is_root p"
  then have a: "list_all (\<lambda>c. c = CHR ''/'') (rev p)" and ne: "p \<noteq> []"
    by (simp_all add: is_root_def)
  from a have "dropWhile (\<lambda>c. c \<noteq> CHR ''/'') (rev p) = rev p"
    by (cases "rev p") (simp_all)
  then show ?thesis using r by (simp add: dirname_def is_root_def)
qed

lemma parent_and_name_cases:
  "parent_and_name p =
     (if basename p = [] then (dirname (dirname p), basename (dirname p)) else (dirname p, basename p))"
  by (simp add: parent_and_name_def split_path_def)

lemma parent_le: "length (fst (parent_and_name p)) \<le> length p"
  using dirname_le [of p] dirname_le [of "dirname p"] by (simp add: parent_and_name_cases)

lemma parent_lt: "snd (parent_and_name p) \<noteq> [] \<Longrightarrow> length (fst (parent_and_name p)) < length p"
  using dirname_le [of p] dirname_lt [of "dirname p"] dirname_lt [of p]
  by (auto simp: parent_and_name_cases split: if_splits)

lemma parent_no_name:
  assumes "snd (parent_and_name p) = []"
  shows "fst (parent_and_name p) = [] \<or> is_root (fst (parent_and_name p))"
proof -
  from assms have b: "basename p = []" "basename (dirname p) = []"
    by (auto simp: parent_and_name_cases split: if_splits)
  then have h: "fst (parent_and_name p) = dirname (dirname p)"
    by (simp add: parent_and_name_cases)
  from dirname_form [of p] b(2) have "dirname p = [] \<or> is_root (dirname p)" by blast
  then show ?thesis
    using h dirname_root [of "dirname p"] by auto
qed

lemma ancestors_shorter: "a \<in> set (ancestors p) \<Longrightarrow> length a < length p"
proof (induction p rule: ancestors.induct)
  case (1 p)
  show ?case
  proof (cases "dirname p \<noteq> [] \<and> length (dirname p) < length p")
    case True
    with "1.prems" have "a = dirname p \<or> a \<in> set (ancestors (dirname p))"
      by (subst (asm) ancestors.simps) auto
    then show ?thesis
    proof
      assume "a = dirname p"
      with True show ?thesis by simp
    next
      assume "a \<in> set (ancestors (dirname p))"
      with "1.IH" True have "length a < length (dirname p)" by blast
      with True show ?thesis by simp
    qed
  next
    case False
    with "1.prems" show ?thesis by (subst (asm) ancestors.simps) auto
  qed
qed

lemma ancestors_dirname: "set (ancestors (dirname p)) \<subseteq> set (ancestors p)"
proof (cases "dirname p \<noteq> [] \<and> length (dirname p) < length p")
  case True
  then show ?thesis by (subst (2) ancestors.simps) auto
next
  case False
  then have "dirname p = [] \<or> dirname p = p"
    using dirname_le [of p] dirname_same [of p] by (cases "length (dirname p) = length p") auto
  then show ?thesis
  proof
    assume "dirname p = []"
    then show ?thesis by (simp add: ancestors.simps [of "[]"])
  next
    assume "dirname p = p"
    then show ?thesis by simp
  qed
qed

lemma dirname_ancestor:
  "dirname p \<noteq> [] \<Longrightarrow> dirname p \<noteq> p \<Longrightarrow> dirname p \<in> set (ancestors p)"
  using dirname_le [of p] dirname_same [of p]
  by (subst ancestors.simps) (cases "length (dirname p) = length p"; auto)

lemma parent_ancestor:
  assumes "parent_and_name p = (head, tail)" and "head \<noteq> []" and "tail \<noteq> []"
  shows "head \<in> set (ancestors p)" and "set (ancestors head) \<subseteq> set (ancestors p)"
proof -
  have "head \<in> set (ancestors p) \<and> set (ancestors head) \<subseteq> set (ancestors p)"
  proof (cases "basename p = []")
    case False
    with assms(1) have h: "head = dirname p" by (simp add: parent_and_name_cases)
    from False have "length (dirname p) < length p" by (rule dirname_lt)
    then have "dirname p \<noteq> p" by auto
    with assms(2) h have "head \<in> set (ancestors p)" using dirname_ancestor by simp
    then show ?thesis using h ancestors_dirname [of p] by simp
  next
    case True
    with assms(1) have h: "head = dirname (dirname p)" and t: "tail = basename (dirname p)"
      by (simp_all add: parent_and_name_cases)
    let ?q = "dirname p"
    from t assms(3) have "length (dirname ?q) < length ?q" by (intro dirname_lt) simp
    then have "dirname ?q \<noteq> ?q" by auto
    with assms(2) h have 1: "head \<in> set (ancestors ?q)" using dirname_ancestor by simp
    have 2: "set (ancestors head) \<subseteq> set (ancestors ?q)"
      using h ancestors_dirname [of ?q] by simp
    show ?thesis using 1 2 ancestors_dirname [of p] by blast
  qed
  then show "head \<in> set (ancestors p)" and "set (ancestors head) \<subseteq> set (ancestors p)"
    by simp_all
qed

text \<open>
  \<open>os.makedirs\<close> writes neither to the log nor to the network, and all it does
  to the file system is to make directories where there was nothing: at the
  path itself and at directories above it.
\<close>

lemma node_at_fs_update:
  "p \<noteq> [] \<Longrightarrow> \<not> is_root p \<Longrightarrow>
   node_at (w\<lparr>fs := (fs w)(p \<mapsto> n)\<rparr>) q = (if q = p then Some n else node_at w q)"
  by (simp add: node_at_def)

lemma mkdir_result:
  assumes "mkdir p w = Inr w'"
  shows "logs w' = logs w" and "requests w' = requests w" and "node_at w p = None"
    and "node_at w' q = (if q = p then Some Dir else node_at w q)"
proof -
  from assms have p: "p \<noteq> []" and n: "node_at w p = None"
    by (auto simp: mkdir_def path_exists_def split: if_splits)
  from p n have r: "\<not> is_root p" by (auto simp: node_at_def)
  from assms have w': "w' = w\<lparr>fs := (fs w)(p \<mapsto> Dir)\<rparr>"
    by (auto simp: mkdir_def split: if_splits option.splits node.splits)
  show "logs w' = logs w" and "requests w' = requests w" by (simp_all add: w')
  show "node_at w p = None" by (rule n)
  show "node_at w' q = (if q = p then Some Dir else node_at w q)"
    unfolding w' using p r by (rule node_at_fs_update)
qed

lemma mkdir_ok:
  assumes "p \<noteq> []" and "node_at w p = None"
    and "\<forall>b. node_at w (fst (parent_and_name p)) \<noteq> Some (File b)"
  shows "\<exists>w'. mkdir p w = Inr w'"
  using assms
  by (auto simp: mkdir_def path_exists_def split: option.splits node.splits)

lemma makedirs_leaf_frame:
  assumes "makedirs_leaf b name w = (r, w')"
  shows "logs w' = logs w \<and> requests w' = requests w
       \<and> (\<forall>q. node_at w' q = node_at w q
              \<or> (q = name \<and> node_at w q = None \<and> node_at w' q = Some Dir))"
proof (cases "mkdir name w")
  case (Inl e)
  with assms have "w' = w" by (auto simp: makedirs_leaf_def split: if_splits)
  then show ?thesis by simp
next
  case (Inr w1)
  with assms have "w' = w1" by (simp add: makedirs_leaf_def)
  with mkdir_result [OF Inr] show ?thesis by auto
qed

lemma os_makedirs_frame_all:
  "\<forall>r w'. os_makedirs b name w = (r, w') \<longrightarrow>
     logs w' = logs w \<and> requests w' = requests w
     \<and> (\<forall>q. node_at w' q = node_at w q
            \<or> (q \<in> set (name # ancestors name) \<and> node_at w q = None \<and> node_at w' q = Some Dir))"
proof (induction b name w rule: os_makedirs.induct)
  case (1 b name w)
  obtain head tail where pn: "parent_and_name name = (head, tail)" by force
  show ?case
  proof (intro allI impI)
    fix r w'
    assume run: "os_makedirs b name w = (r, w')"
    show "logs w' = logs w \<and> requests w' = requests w
       \<and> (\<forall>q. node_at w' q = node_at w q
              \<or> (q \<in> set (name # ancestors name) \<and> node_at w q = None \<and> node_at w' q = Some Dir))"
    proof (cases "head \<noteq> [] \<and> tail \<noteq> [] \<and> \<not> path_exists head w")
      case False
      with run pn have "makedirs_leaf b name w = (r, w')"
        by (subst (asm) os_makedirs.simps) auto
      from makedirs_leaf_frame [OF this] show ?thesis by auto
    next
      case True
      obtain r1 w1 where rec: "os_makedirs b head w = (r1, w1)" by force
      from "1.IH" [OF pn [symmetric] True] rec
      have f1: "logs w1 = logs w" "requests w1 = requests w"
        "\<forall>q. node_at w1 q = node_at w q
            \<or> (q \<in> set (head # ancestors head) \<and> node_at w q = None \<and> node_at w1 q = Some Dir)"
        by blast+
      from parent_ancestor [OF pn] True
      have sub: "set (head # ancestors head) \<subseteq> set (ancestors name)" by simp
      have up: "\<forall>q. node_at w1 q = node_at w q
            \<or> (q \<in> set (ancestors name) \<and> node_at w q = None \<and> node_at w1 q = Some Dir)"
        using f1(3) sub by blast
      have "w' = w1 \<or> makedirs_leaf b name w1 = (r, w')"
        using run pn True rec
        by (subst (asm) os_makedirs.simps) (auto split: sum.splits if_splits)
      then show ?thesis
      proof
        assume "w' = w1"
        with f1(1,2) up show ?thesis by auto
      next
        assume "makedirs_leaf b name w1 = (r, w')"
        from makedirs_leaf_frame [OF this]
        have f2: "logs w' = logs w1" "requests w' = requests w1"
          "\<forall>q. node_at w' q = node_at w1 q
              \<or> (q = name \<and> node_at w1 q = None \<and> node_at w' q = Some Dir)"
          by blast+
        have "node_at w' q = node_at w q
              \<or> (q \<in> set (name # ancestors name) \<and> node_at w q = None \<and> node_at w' q = Some Dir)" for q
        proof (cases "node_at w' q = node_at w1 q")
          case True
          with up show ?thesis by auto
        next
          case False
          with f2(3) have q: "q = name" "node_at w1 q = None" "node_at w' q = Some Dir" by auto
          with up have "node_at w q = None" by metis
          with q show ?thesis by simp
        qed
        with f1(1,2) f2(1,2) show ?thesis by simp
      qed
    qed
  qed
qed

lemma os_makedirs_frame:
  assumes "os_makedirs b name w = (r, w')"
  shows "logs w' = logs w" and "requests w' = requests w"
    and "node_at w' q = node_at w q
         \<or> (q \<in> set (name # ancestors name) \<and> node_at w q = None \<and> node_at w' q = Some Dir)"
  using os_makedirs_frame_all [of b name w] assms by blast+

lemma os_makedirs_longer:
  assumes "os_makedirs b name w = (r, w')" and "length name < length q"
  shows "node_at w' q = node_at w q"
proof -
  have "q \<notin> set (name # ancestors name)"
    using assms(2) ancestors_shorter [of q name] by auto
  with os_makedirs_frame(3) [OF assms(1), of q] show ?thesis by blast
qed

lemma os_makedirs_keeps:
  assumes "os_makedirs b name w = (r, w')" and "node_at w q \<noteq> None"
  shows "node_at w' q = node_at w q"
  using os_makedirs_frame(3) [OF assms(1), of q] assms(2) by blast

text \<open>
  \<open>os.makedirs\<close> succeeds on a path that names nothing when none of the
  directories above it is a regular file.
\<close>

lemma os_makedirs_ok_all:
  "name \<noteq> [] \<longrightarrow> node_at w name = None
   \<longrightarrow> (\<forall>a \<in> set (ancestors name). \<forall>bs. node_at w a \<noteq> Some (File bs))
   \<longrightarrow> (\<exists>w'. os_makedirs b name w = (Inr (), w'))"
proof (induction b name w rule: os_makedirs.induct)
  case (1 b name w)
  obtain head tail where pn: "parent_and_name name = (head, tail)" by force
  show ?case
  proof (intro impI)
    assume ne: "name \<noteq> []" and absent: "node_at w name = None"
      and nofile: "\<forall>a \<in> set (ancestors name). \<forall>bs. node_at w a \<noteq> Some (File bs)"
    have head_ok: "\<forall>bs. node_at w head \<noteq> Some (File bs)"
    proof (cases "tail = []")
      case True
      with pn parent_no_name [of name] have "head = [] \<or> is_root head" by simp
      then show ?thesis by (auto simp: node_at_def)
    next
      case False
      show ?thesis
      proof (cases "head = []")
        case True
        then show ?thesis by (simp add: node_at_def)
      next
        case h: False
        from parent_ancestor(1) [OF pn h False] nofile show ?thesis by blast
      qed
    qed
    show "\<exists>w'. os_makedirs b name w = (Inr (), w')"
    proof (cases "head \<noteq> [] \<and> tail \<noteq> [] \<and> \<not> path_exists head w")
      case False
      from mkdir_ok [OF ne absent] head_ok pn obtain w' where "mkdir name w = Inr w'" by auto
      then have "makedirs_leaf b name w = (Inr (), w')" by (simp add: makedirs_leaf_def)
      with False pn show ?thesis by (subst os_makedirs.simps) auto
    next
      case True
      then have habs: "node_at w head = None" by (simp add: path_exists_def)
      from parent_ancestor(2) [OF pn] True nofile
      have "\<forall>a \<in> set (ancestors head). \<forall>bs. node_at w a \<noteq> Some (File bs)" by blast
      with "1.IH" [OF pn [symmetric] True] True habs
      obtain w1 where rec: "os_makedirs b head w = (Inr (), w1)" by blast
      show ?thesis
      proof (cases "tail = ''.''")
        case dot: True
        with True pn rec show ?thesis by (subst os_makedirs.simps) auto
      next
        case nodot: False
        have "length head < length name" using parent_lt [of name] pn True by simp
        then have n1: "node_at w1 name = None"
          using os_makedirs_longer [OF rec] absent by simp
        have h1: "\<forall>b. node_at w1 head \<noteq> Some (File b)"
          using os_makedirs_frame(3) [OF rec, of head] habs by auto
        from mkdir_ok [OF ne n1] h1 pn obtain w' where "mkdir name w1 = Inr w'" by auto
        then have "makedirs_leaf b name w1 = (Inr (), w')" by (simp add: makedirs_leaf_def)
        with True pn rec nodot show ?thesis by (subst os_makedirs.simps) auto
      qed
    qed
  qed
qed

lemma os_makedirs_ok:
  assumes "name \<noteq> []" and "node_at w name = None"
    and "\<forall>a \<in> set (ancestors name). \<forall>bs. node_at w a \<noteq> Some (File bs)"
  shows "\<exists>w'. os_makedirs b name w = (Inr (), w')"
  using os_makedirs_ok_all [of name w b] assms by blast

text \<open>With \<open>exist_ok\<close> set, the call on an existing directory changes nothing.\<close>

lemma makedirs_conv:
  "makedirs p w = Inr w1 \<longleftrightarrow> os_makedirs True p w = (Inr (), w1)"
  by (auto simp: makedirs_def split: prod.splits sum.splits)


text \<open>What is in the log has no influence on \<open>os.makedirs\<close>.\<close>

lemma node_at_logs_update [simp]: "node_at (w\<lparr>logs := x\<rparr>) p = node_at w p"
  by (simp add: node_at_def)

lemma mkdir_logs:
  "mkdir p (w\<lparr>logs := x\<rparr>) = (case mkdir p w of Inl e \<Rightarrow> Inl e | Inr w' \<Rightarrow> Inr (w'\<lparr>logs := x\<rparr>))"
  by (simp add: mkdir_def path_exists_def split: option.splits node.splits)

lemma makedirs_leaf_logs:
  "makedirs_leaf b name (w\<lparr>logs := x\<rparr>)
     = (fst (makedirs_leaf b name w), (snd (makedirs_leaf b name w))\<lparr>logs := x\<rparr>)"
  by (simp add: makedirs_leaf_def mkdir_logs isdir_def split: sum.splits)

lemma os_makedirs_logs:
  "os_makedirs b name (w\<lparr>logs := x\<rparr>)
     = (fst (os_makedirs b name w), (snd (os_makedirs b name w))\<lparr>logs := x\<rparr>)"
proof (induction b name w rule: os_makedirs.induct)
  case (1 b name w)
  obtain head tail where pn: "parent_and_name name = (head, tail)" by force
  show ?case
  proof (cases "head \<noteq> [] \<and> tail \<noteq> [] \<and> \<not> path_exists head w")
    case False
    then have g: "\<not> (head \<noteq> [] \<and> tail \<noteq> [] \<and> \<not> path_exists head (w\<lparr>logs := x\<rparr>))"
      by (simp add: path_exists_def)
    have l: "os_makedirs b name w = makedirs_leaf b name w"
      using pn False by (subst os_makedirs.simps) auto
    have r: "os_makedirs b name (w\<lparr>logs := x\<rparr>) = makedirs_leaf b name (w\<lparr>logs := x\<rparr>)"
      using pn g by (subst os_makedirs.simps) auto
    show ?thesis
      unfolding l r by (rule makedirs_leaf_logs)
  next
    case True
    then have g: "head \<noteq> [] \<and> tail \<noteq> [] \<and> \<not> path_exists head (w\<lparr>logs := x\<rparr>)"
      by (simp add: path_exists_def)
    obtain r1 w1 where rec: "os_makedirs b head w = (r1, w1)" by force
    with "1.IH" [OF pn [symmetric] True]
    have rec': "os_makedirs b head (w\<lparr>logs := x\<rparr>) = (r1, w1\<lparr>logs := x\<rparr>)" by simp
    have l: "os_makedirs b name w =
        (case r1 of
           Inl e \<Rightarrow> (if \<not> is_FileExistsError e then (Inl e, w1)
                     else if tail = ''.'' then (Inr (), w1) else makedirs_leaf b name w1)
         | Inr u \<Rightarrow> (if tail = ''.'' then (Inr (), w1) else makedirs_leaf b name w1))"
      using pn True rec by (subst os_makedirs.simps) simp
    have r: "os_makedirs b name (w\<lparr>logs := x\<rparr>) =
        (case r1 of
           Inl e \<Rightarrow> (if \<not> is_FileExistsError e then (Inl e, w1\<lparr>logs := x\<rparr>)
                     else if tail = ''.'' then (Inr (), w1\<lparr>logs := x\<rparr>)
                     else makedirs_leaf b name (w1\<lparr>logs := x\<rparr>))
         | Inr u \<Rightarrow> (if tail = ''.'' then (Inr (), w1\<lparr>logs := x\<rparr>)
                     else makedirs_leaf b name (w1\<lparr>logs := x\<rparr>)))"
      using pn g rec' by (subst os_makedirs.simps) simp
    show ?thesis
      unfolding l r by (simp add: makedirs_leaf_logs split: sum.splits)
  qed
qed

lemma os_makedirs_logger:
  assumes "os_makedirs b name w = (r, w')"
  shows "os_makedirs b name (logger lvl msg w) = (r, logger lvl msg w')"
proof -
  have "logs w' = logs w" using assms by (rule os_makedirs_frame(1))
  then show ?thesis
    using os_makedirs_logs [where b = b and name = name and w = w and x = "logs w @ [(lvl, msg)]"] assms
    by (simp add: logger_def)
qed

section \<open>Properties of \<open>download_file\<close>\<close>

text \<open>
  The directory of a path is a shorter path, except for the empty path and the
  root; so making it leaves the destination as it was.  The other steps of a
  fresh download change the destination at most into a regular file, and make
  at most one request.
\<close>

lemma fix_github_url_frame:
  "fs (snd (fix_github_url url w)) = fs w" "requests (snd (fix_github_url url w)) = requests w"
  by (simp_all add: fix_github_url_def Let_def)

lemma fix_github_url_fst: "fst (fix_github_url url w) = fst (fix_github_url url w')"
  by (simp add: fix_github_url_def Let_def)

lemma validate_fst_cong:
  assumes "node_at w p = node_at w' p"
  shows "fst (validate_zip_file E p w) = fst (validate_zip_file E p w')"
proof (cases "node_at w p")
  case None
  with assms show ?thesis by (simp add: validate_absent)
next
  case (Some nd)
  show ?thesis
  proof (cases nd)
    case (File bs)
    with Some assms have "node_at w p = Some (File bs)" "node_at w' p = Some (File bs)" by simp_all
    then show ?thesis by (simp add: validate_File split: sum.splits)
  next
    case Dir
    with Some assms have "node_at w p = Some Dir" "node_at w' p = Some Dir" by simp_all
    then show ?thesis by (simp add: validate_Dir)
  qed
qed

lemma validate_node_at:
  assumes "validate_zip_file E p w = (r, w')"
  shows "node_at w' q = node_at w q"
  using validate_frame [OF assms] by (simp add: node_at_def)

lemma os_remove_File:
  assumes "node_at w p = Some (File bs)"
  shows "os_remove p w = Inr (w\<lparr>fs := (fs w)(p := None)\<rparr>)"
    and "node_at (w\<lparr>fs := (fs w)(p := None)\<rparr>) p = None"
  using assms by (auto simp: os_remove_def node_at_def split: if_splits)


lemma except_Exception_no_Dir:
  assumes "node_at w (local_data_file c) \<noteq> Some Dir"
  shows "\<exists>w'. except_Exception c e w = (Inl e, w') \<and> node_at w' (local_data_file c) = None
           \<and> requests w' = requests w"
proof (cases "node_at w (local_data_file c)")
  case None
  then show ?thesis by (simp add: except_Exception_def path_exists_def)
next
  case (Some nd)
  with assms obtain bs where f: "node_at w (local_data_file c) = Some (File bs)"
    by (cases nd) auto
  have "path_exists (local_data_file c) w" using f by (simp add: path_exists_def)
  then show ?thesis
    using os_remove_File [OF f] by (simp add: except_Exception_def)
qed

lemma write_file_ok:
  assumes "p \<noteq> []" and "node_at w p \<noteq> Some Dir"
  shows "\<exists>w'. write_file p bs w = Inr w' \<and> logs w' = logs w \<and> requests w' = requests w
           \<and> (\<forall>q. node_at w' q = (if q = p then Some (File bs) else node_at w q))"
proof -
  from assms have nr: "\<not> is_root p" by (auto simp: node_at_def)
  let ?w = "w\<lparr>fs := (fs w)(p \<mapsto> File bs)\<rparr>"
  have "write_file p bs w = Inr ?w"
    using assms by (auto simp: write_file_def split: option.splits node.splits)
  moreover have "\<forall>q. node_at ?w q = (if q = p then Some (File bs) else node_at w q)"
    using assms(1) nr by (auto simp: node_at_def)
  ultimately show ?thesis by simp
qed

lemma write_file_frame:
  assumes "write_file p bs w = Inr w'"
  shows "requests w' = requests w" and "node_at w' p = Some (File bs)"
    and "q \<noteq> p \<Longrightarrow> node_at w' q = node_at w q"
  using assms
  by (auto simp: write_file_def node_at_def split: if_splits option.splits node.splits)

lemma urlretrieve_frame:
  assumes "urlretrieve E url p w = (r, w')"
  shows "requests w' = requests w @ [url]"
    and "q \<noteq> p \<Longrightarrow> node_at w' q = node_at w q"
    and "node_at w p \<noteq> Some Dir \<Longrightarrow> node_at w' p \<noteq> Some Dir"
proof -
  let ?w1 = "w\<lparr>requests := requests w @ [url]\<rparr>"
  have n1: "node_at ?w1 x = node_at w x" for x by (simp add: node_at_def)
  have "requests w' = requests w @ [url]
        \<and> (q \<noteq> p \<longrightarrow> node_at w' q = node_at w q)
        \<and> (node_at w p \<noteq> Some Dir \<longrightarrow> node_at w' p \<noteq> Some Dir)"
  proof (cases "net E url (length (requests w))")
    case (NetOk body headers)
    show ?thesis
    proof (cases "write_file p body ?w1")
      case (Inl e)
      with NetOk assms have "w' = ?w1" by (simp add: urlretrieve_def Let_def)
      then show ?thesis using n1 by simp
    next
      case (Inr w2)
      with NetOk assms have "w' = w2" by (simp add: urlretrieve_def Let_def)
      then show ?thesis using write_file_frame [OF Inr] n1 by simp
    qed
  next
    case (NetFail e part)
    show ?thesis
    proof (cases part)
      case None
      with NetFail assms have "w' = ?w1" by (simp add: urlretrieve_def Let_def)
      then show ?thesis using n1 by simp
    next
      case (Some bs)
      show ?thesis
      proof (cases "write_file p bs ?w1")
        case (Inl e')
        with NetFail Some assms have "w' = ?w1" by (simp add: urlretrieve_def Let_def)
        then show ?thesis using n1 by simp
      next
        case (Inr w2)
        with NetFail Some assms have "w' = w2" by (simp add: urlretrieve_def Let_def)
        then show ?thesis using write_file_frame [OF Inr] n1 by simp
      qed
    qed
  qed
  then show "requests w' = requests w @ [url]"
    and "q \<noteq> p \<Longrightarrow> node_at w' q = node_at w q"
    and "node_at w p \<noteq> Some Dir \<Longrightarrow> node_at w' p \<noteq> Some Dir"
    by simp_all
qed

lemma node_at_requests_update [simp]: "node_at (w\<lparr>requests := r\<rparr>) p = node_at w p"
  by (simp add: node_at_def)

lemma urlretrieve_ok:
  assumes "net E url (length (requests w)) = NetOk body hdrs"
    and "p \<noteq> []" and "node_at w p \<noteq> Some Dir"
  shows "\<exists>w'. urlretrieve E url p w = (Inr (p, hdrs), w') \<and> node_at w' p = Some (File body)
           \<and> requests w' = requests w @ [url]"
proof -
  let ?w1 = "w\<lparr>requests := requests w @ [url]\<rparr>"
  have "node_at ?w1 p \<noteq> Some Dir" using assms(3) by simp
  with assms(2) obtain w2 where w2: "write_file p body ?w1 = Inr w2"
      "requests w2 = requests ?w1" "\<forall>q. node_at w2 q = (if q = p then Some (File body) else node_at ?w1 q)"
    using write_file_ok [of p ?w1 body] by blast
  then have "urlretrieve E url p w = (Inr (p, hdrs), w2)"
    using assms(1) by (simp add: urlretrieve_def Let_def)
  then show ?thesis using w2 by simp
qed


lemma os_makedirs_empty: "os_makedirs b [] w = (Inl (ENOENT []), w)"
  by (subst os_makedirs.simps)
     (simp add: parent_and_name_def split_path_def makedirs_leaf_def mkdir_def isdir_def node_at_def)

lemma absent_after_makedirs:
  assumes "node_at w p = None" and "os_makedirs b (dirname p) w = (r, w1)"
  shows "node_at w1 p = None" and "r = Inr u \<Longrightarrow> p \<noteq> []"
proof -
  show "node_at w1 p = None"
  proof (cases "p = []")
    case True
    then show ?thesis by (simp add: node_at_def)
  next
    case False
    with assms(1) have "\<not> is_root p" by (auto simp: node_at_def split: if_splits)
    with False have "length (dirname p) < length p" by (rule dirname_proper)
    with os_makedirs_longer [OF assms(2)] assms(1) show ?thesis by simp
  qed
  show "p \<noteq> []" if "r = Inr u"
  proof
    assume "p = []"
    with assms(2) that show False by (simp add: os_makedirs_empty)
  qed
qed

lemma fresh_download_frame:
  assumes "node_at w (local_data_file c) = None" and "fresh_download E c w = (r, w')"
  shows "node_at w' (local_data_file c) \<noteq> Some Dir"
    and "requests w' = requests w \<or> requests w' = requests w @ [fst (fix_github_url (source_URL c) w)]"
    and "makedirs (dirname (local_data_file c)) w = Inr w1 \<Longrightarrow>
           requests w' = requests w @ [fst (fix_github_url (source_URL c) w)]"
proof -
  let ?p = "local_data_file c"
  let ?url = "fst (fix_github_url (source_URL c) w)"
  obtain r1 v1 where mk: "os_makedirs True (dirname ?p) w = (r1, v1)" by force
  note a = absent_after_makedirs [OF assms(1) mk]
  note m = os_makedirs_frame(1,2) [OF mk]
  have "node_at w' ?p \<noteq> Some Dir
      \<and> (requests w' = requests w \<or> requests w' = requests w @ [?url])
      \<and> ((\<exists>w1. makedirs (dirname ?p) w = Inr w1) \<longrightarrow> requests w' = requests w @ [?url])"
  proof (cases r1)
    case (Inl e)
    with assms(2) mk have "w' = v1" by (simp add: fresh_download_def)
    with a(1) m(2) Inl mk show ?thesis by (simp add: makedirs_def)
  next
    case (Inr u)
    obtain url w2 where fx: "fix_github_url (source_URL c) v1 = (url, w2)" by force
    have url: "url = ?url" using fx fix_github_url_fst [of "source_URL c" v1 w] by simp
    have f2: "fs w2 = fs v1" "requests w2 = requests v1"
      using fix_github_url_frame [of "source_URL c" v1] fx by simp_all
    define w3 where "w3 = logger INFO (''Downloading from: '' @ url) w2"
    have n3: "node_at w3 ?p = None" using a(1) node_at_fs_cong [OF f2(1)] by (simp add: w3_def)
    have r3: "requests w3 = requests w" using f2(2) m(2) by (simp add: w3_def)
    obtain r4 w4 where ur: "urlretrieve E url ?p w3 = (r4, w4)" by force
    have r4: "requests w4 = requests w @ [?url]" and n4: "node_at w4 ?p \<noteq> Some Dir"
      using urlretrieve_frame(1,3) [OF ur] n3 r3 url by simp_all
    have "node_at w' ?p \<noteq> Some Dir \<and> requests w' = requests w @ [?url]"
    proof (cases r4)
      case (Inl e)
      with assms(2) mk \<open>r1 = Inr u\<close> fx ur have "w' = w4"
        unfolding w3_def by (simp add: fresh_download_def Let_def)
      with r4 n4 show ?thesis by simp
    next
      case fhr: (Inr fh)
      obtain filename headers where fh: "fh = (filename, headers)" by (cases fh)
      define w5 where "w5 = logger INFO (filename @ '' downloaded! Headers: '' @ [CHR 0x0A] @ headers) w4"
      obtain r6 w6 where v: "validate_zip_file E ?p w5 = (r6, w6)" by force
      have f6: "fs w6 = fs w4" "requests w6 = requests w4"
        using validate_frame [OF v] by (simp_all add: w5_def)
      have "fs w' = fs w6 \<and> requests w' = requests w6"
        using assms(2) mk \<open>r1 = Inr u\<close> fx ur fhr fh v
        unfolding w3_def w5_def
        by (cases r6) (auto simp: fresh_download_def Let_def)
      then have "fs w' = fs w4" "requests w' = requests w4"
        using f6 by simp_all
      then have "node_at w' ?p = node_at w4 ?p" "requests w' = requests w4"
        using node_at_fs_cong [of w' w4 ?p] by simp_all
      with r4 n4 show ?thesis by simp
    qed
    then show ?thesis by simp
  qed
  then show "node_at w' ?p \<noteq> Some Dir"
    and "requests w' = requests w \<or> requests w' = requests w @ [?url]"
    and "makedirs (dirname ?p) w = Inr w1 \<Longrightarrow> requests w' = requests w @ [?url]"
    by blast+
qed

lemma download_try_absent:
  "node_at w (local_data_file c) = None \<Longrightarrow> download_try E c w = fresh_download E c w"
  by (simp add: download_try.simps path_exists_def)

lemma download_file_absent:
  assumes "node_at w (local_data_file c) = None"
  shows "fst (download_file E c w) = fst (fresh_download E c w)"
    and "requests (snd (download_file E c w)) = requests (snd (fresh_download E c w))"
    and "fst (download_file E c w) \<noteq> Inr () \<Longrightarrow> node_at (snd (download_file E c w)) (local_data_file c) = None"
proof -
  obtain r w1 where fr: "fresh_download E c w = (r, w1)" by force
  have nd: "node_at w1 (local_data_file c) \<noteq> Some Dir"
    using fresh_download_frame(1) [OF assms fr] .
  have "fst (download_file E c w) = r \<and> requests (snd (download_file E c w)) = requests w1
      \<and> (r \<noteq> Inr () \<longrightarrow> node_at (snd (download_file E c w)) (local_data_file c) = None)"
  proof (cases r)
    case (Inl e)
    from except_Exception_no_Dir [OF nd, of e] obtain w' where
      "except_Exception c e w1 = (Inl e, w')" "node_at w' (local_data_file c) = None"
      "requests w' = requests w1" by blast
    then show ?thesis
      using Inl fr by (simp add: download_file.simps download_try_absent [OF assms])
  next
    case (Inr u)
    then show ?thesis using fr by (simp add: download_file.simps download_try_absent [OF assms])
  qed
  then show "fst (download_file E c w) = fst (fresh_download E c w)"
    and "requests (snd (download_file E c w)) = requests (snd (fresh_download E c w))"
    and "fst (download_file E c w) \<noteq> Inr () \<Longrightarrow> node_at (snd (download_file E c w)) (local_data_file c) = None"
    using fr by simp_all
qed

lemma fresh_download_invalid:
  assumes "node_at w (local_data_file c) = None"
    and "makedirs (dirname (local_data_file c)) w = Inr w1"
    and "net E (fst (fix_github_url (source_URL c) w)) (length (requests w)) = NetOk body hdrs"
    and "fst (validate_zip_file E (local_data_file c)
               (w\<lparr>fs := (fs w)(local_data_file c \<mapsto> File body)\<rparr>)) = Inl e"
  shows "fst (fresh_download E c w) = Inl e"
proof -
  let ?p = "local_data_file c"
  from assms(2) have mk: "os_makedirs True (dirname ?p) w = (Inr (), w1)"
    by (simp add: makedirs_conv)
  note a = absent_after_makedirs [OF assms(1) mk]
  have ne: "?p \<noteq> []" using a(2) by simp
  obtain url w2 where fx: "fix_github_url (source_URL c) w1 = (url, w2)" by force
  have url: "url = fst (fix_github_url (source_URL c) w)"
    using fx fix_github_url_fst [of "source_URL c" w1 w] by simp
  have f2: "fs w2 = fs w1" "requests w2 = requests w1"
    using fix_github_url_frame [of "source_URL c" w1] fx by simp_all
  define w3 where "w3 = logger INFO (''Downloading from: '' @ url) w2"
  have n3: "node_at w3 ?p \<noteq> Some Dir" using a(1) node_at_fs_cong [OF f2(1)] by (simp add: w3_def)
  have r3: "requests w3 = requests w" using f2(2) os_makedirs_frame(2) [OF mk] by (simp add: w3_def)
  have "net E url (length (requests w3)) = NetOk body hdrs" using assms(3) url r3 by simp
  from urlretrieve_ok [OF this ne n3] obtain w4 where
    ur: "urlretrieve E url ?p w3 = (Inr (?p, hdrs), w4)" and n4: "node_at w4 ?p = Some (File body)"
    by blast
  define w5 where "w5 = logger INFO (?p @ '' downloaded! Headers: '' @ [CHR 0x0A] @ hdrs) w4"
  from assms(1) ne have "\<not> is_root ?p" by (auto simp: node_at_def split: if_splits)
  with ne have "node_at (w\<lparr>fs := (fs w)(?p \<mapsto> File body)\<rparr>) ?p = Some (File body)"
    by (simp add: node_at_def)
  with n4 have "node_at w5 ?p = node_at (w\<lparr>fs := (fs w)(?p \<mapsto> File body)\<rparr>) ?p"
    by (simp add: w5_def)
  from validate_fst_cong [OF this, of E] assms(4)
  obtain w6 where v: "validate_zip_file E ?p w5 = (Inl e, w6)"
    by (metis prod.collapse)
  show ?thesis
    using mk fx ur v unfolding w3_def w5_def
    by (simp add: fresh_download_def Let_def)
qed

lemma sample_fresh_facts:
  shows "node_at empty_world (local_data_file sample_config) = None"
    and "makedirs (dirname (local_data_file sample_config)) empty_world
           = Inr (empty_world\<lparr>fs := (fs empty_world)(''/tmp'' \<mapsto> Dir)\<rparr>)"
    and "fst (fix_github_url (source_URL sample_config) empty_world)
           = ''https://raw.githubusercontent.com/org/repo/main/data.zip''"
    and "net sample_env ''https://raw.githubusercontent.com/org/repo/main/data.zip'' (length (requests empty_world))
           = NetOk ''<html>Not Found</html>'' ''Content-Type: text/html''"
    and "fst (validate_zip_file sample_env (local_data_file sample_config)
               (empty_world\<lparr>fs := (fs empty_world)(local_data_file sample_config \<mapsto> File ''<html>Not Found</html>'')\<rparr>))
           = Inl (ValueError ''Downloaded HTML page instead of ZIP file. Check the URL.'')"
proof -
  show "node_at empty_world (local_data_file sample_config) = None"
    by (simp add: node_at_def empty_world_def sample_config_def is_root_def)
  have d: "dirname (local_data_file sample_config) = ''/tmp''"
    by (simp add: dirname_def sample_config_def)
  have pn: "parent_and_name ''/tmp'' = (''/'', ''tmp'')"
    by (simp add: parent_and_name_def split_path_def dirname_def basename_def)
  have "os_makedirs True ''/tmp'' empty_world
          = (Inr (), empty_world\<lparr>fs := (fs empty_world)(''/tmp'' \<mapsto> Dir)\<rparr>)"
    by (subst os_makedirs.simps)
       (simp add: pn makedirs_leaf_def mkdir_def path_exists_def node_at_def is_root_def empty_world_def)
  then show "makedirs (dirname (local_data_file sample_config)) empty_world
           = Inr (empty_world\<lparr>fs := (fs empty_world)(''/tmp'' \<mapsto> Dir)\<rparr>)"
    unfolding d by (simp add: makedirs_def)
  show "fst (fix_github_url (source_URL sample_config) empty_world)
           = ''https://raw.githubusercontent.com/org/repo/main/data.zip''"
    by (simp add: fix_github_url_def sample_config_def str_replace_def Let_def)
  show "net sample_env ''https://raw.githubusercontent.com/org/repo/main/data.zip'' (length (requests empty_world))
           = NetOk ''<html>Not Found</html>'' ''Content-Type: text/html''"
    by (simp add: sample_env_def)
  have "node_at (empty_world\<lparr>fs := (fs empty_world)(local_data_file sample_config \<mapsto> File ''<html>Not Found</html>'')\<rparr>)
          (local_data_file sample_config) = Some (File ''<html>Not Found</html>'')"
    by (simp add: node_at_def sample_config_def is_root_def)
  from validate_File [OF this, of sample_env]
  show "fst (validate_zip_file sample_env (local_data_file sample_config)
               (empty_world\<lparr>fs := (fs empty_world)(local_data_file sample_config \<mapsto> File ''<html>Not Found</html>'')\<rparr>))
           = Inl (ValueError ''Downloaded HTML page instead of ZIP file. Check the URL.'')"
    by simp
qed

text \<open>
  C4.  When the destination does not exist, the body of the method is the
  fresh download alone: the retry handler is not on this path.  If the parent
  directory can be ensured, the server delivers a body and the validation of
  the file just written fails, then this failure is what the caller gets, one
  request has been made (to the normalised URL), and the file is gone again.
\<close>

theorem fresh_download_no_retry:
  assumes "\<not> path_exists (local_data_file c) w"
    and "makedirs (dirname (local_data_file c)) w = Inr w1"
    and "net E (fst (fix_github_url (source_URL c) w)) (length (requests w)) = NetOk body hdrs"
    and "fst (validate_zip_file E (local_data_file c)
               (w\<lparr>fs := (fs w)(local_data_file c \<mapsto> File body)\<rparr>)) = Inl e"
  shows "download_try E c w = fresh_download E c w
       \<and> fst (download_file E c w) = Inl e
       \<and> requests (snd (download_file E c w)) = requests w @ [fst (fix_github_url (source_URL c) w)]
       \<and> \<not> path_exists (local_data_file c) (snd (download_file E c w))"
proof -
  from assms(1) have n: "node_at w (local_data_file c) = None" by (simp add: path_exists_def)
  have f: "fst (fresh_download E c w) = Inl e"
    using n assms(2,3,4) by (rule fresh_download_invalid)
  have r: "requests (snd (fresh_download E c w)) = requests w @ [fst (fix_github_url (source_URL c) w)]"
    using fresh_download_frame(3) [OF n _ assms(2)] by (metis prod.collapse)
  have 1: "fst (download_file E c w) = Inl e" using download_file_absent(1) [OF n] f by simp
  then have "node_at (snd (download_file E c w)) (local_data_file c) = None"
    using download_file_absent(3) [OF n, of E] by simp
  then show ?thesis
    using 1 r download_file_absent(2) [OF n] download_try_absent [OF n]
    by (simp add: path_exists_def)
qed


theorem fresh_download_no_retry_witness:
  "fst (download_file sample_env sample_config empty_world)
     = Inl (ValueError ''Downloaded HTML page instead of ZIP file. Check the URL.'')
   \<and> requests (snd (download_file sample_env sample_config empty_world))
     = [''https://raw.githubusercontent.com/org/repo/main/data.zip'']
   \<and> \<not> path_exists ''/tmp/d.zip'' (snd (download_file sample_env sample_config empty_world))"
proof -
  have a: "\<not> path_exists (local_data_file sample_config) empty_world"
    using sample_fresh_facts(1) by (simp add: path_exists_def)
  note t = fresh_download_no_retry [OF a sample_fresh_facts(2)
             sample_fresh_facts(4) [folded sample_fresh_facts(3)] sample_fresh_facts(5)]
  have r: "requests empty_world = []" by (simp add: empty_world_def)
  have p: "local_data_file sample_config = ''/tmp/d.zip''" by (simp add: sample_config_def)
  show ?thesis
    using t unfolding sample_fresh_facts(3) r p by simp
qed


lemma download_try_invalid_file:
  assumes "node_at w (local_data_file c) = Some (File bs)"
    and "fst (validate_zip_file E (local_data_file c) w) = Inl e"
    and "is_ValueError_or_BadZipFile e"
  shows "\<exists>w5. fs w5 = (fs w)(local_data_file c := None) \<and> requests w5 = requests w
           \<and> node_at w5 (local_data_file c) = None
           \<and> download_try E c w = download_file E c w5"
proof -
  let ?p = "local_data_file c"
  have ex: "path_exists ?p w" using assms(1) by (simp add: path_exists_def)
  have sz: "size_string E ?p w = Inr (get_size E (length bs))"
    using assms(1) by (simp add: size_string_def getsize_def)
  define w1 where "w1 = logger INFO (''File already exists of size: '' @ get_size E (length bs)) w"
  have "node_at w1 ?p = node_at w ?p" by (simp add: w1_def)
  from validate_fst_cong [OF this, of E] assms(2)
  obtain w2 where v: "validate_zip_file E ?p w1 = (Inl e, w2)"
    by (metis prod.collapse)
  have f2: "fs w2 = fs w" "requests w2 = requests w"
    using validate_frame [OF v] by (simp_all add: w1_def)
  define w4 where "w4 = logger INFO ''Removing invalid file and re-downloading...''
                          (logger WARNING (''Existing file is invalid: '' @ exn_str e) w2)"
  have f4: "fs w4 = fs w" "requests w4 = requests w" using f2 by (simp_all add: w4_def)
  have n4: "node_at w4 ?p = Some (File bs)"
    using assms(1) node_at_fs_cong [OF f4(1), of ?p] by simp
  let ?w5 = "w4\<lparr>fs := (fs w4)(?p := None)\<rparr>"
  note rm = os_remove_File [OF n4]
  have "download_try E c w = download_file E c ?w5"
    using ex sz v assms(3) rm(1) unfolding w1_def w4_def
    by (simp add: download_try.simps Let_def)
  moreover have "fs ?w5 = (fs w)(?p := None)" "requests ?w5 = requests w"
    using f4 by simp_all
  ultimately show ?thesis using rm(2) by blast
qed


text \<open>
  When the destination has a directory part that can be made, an existing
  file whose validation fails with a \<open>ValueError\<close> or a \<open>BadZipFile\<close> is removed
  and downloaded again, once: the second run finds no file, so it is a fresh
  download and does not enter the method a third time.
\<close>

lemma download_retry_with_directory:
  assumes "node_at w (local_data_file c) = Some (File bs)"
    and "fst (validate_zip_file E (local_data_file c) w) = Inl e"
    and "is_ValueError_or_BadZipFile e"
    and "makedirs (dirname (local_data_file c)) (w\<lparr>fs := (fs w)(local_data_file c := None)\<rparr>) = Inr w6"
  shows "requests (snd (download_file E c w)) = requests w @ [fst (fix_github_url (source_URL c) w)]"
    and "\<forall>bs'. fst (download_file E c w) \<noteq> Inr () \<longrightarrow>
           node_at (snd (download_file E c w)) (local_data_file c) \<noteq> Some (File bs')"
proof -
  let ?p = "local_data_file c"
  let ?url = "fst (fix_github_url (source_URL c) w)"
  from download_try_invalid_file [OF assms(1,2,3)] obtain w5 where
    w5: "fs w5 = (fs w)(?p := None)" "requests w5 = requests w" "node_at w5 ?p = None"
        "download_try E c w = download_file E c w5"
    by blast
  note inner = download_file_absent [OF w5(3), of E]
  obtain r7 w7 where d5: "download_file E c w5 = (r7, w7)" by force
  have outer: "fst (download_file E c w) = r7 \<and> requests (snd (download_file E c w)) = requests w7
      \<and> (r7 \<noteq> Inr () \<longrightarrow> node_at (snd (download_file E c w)) ?p = None)"
  proof (cases r7)
    case (Inl e5)
    with inner(3) d5 have "node_at w7 ?p = None" by simp
    then have "except_Exception c e5 w7 = (Inl e5, logger ERROR (''Download failed: '' @ exn_str e5) w7)"
      by (simp add: except_Exception_def path_exists_def)
    then show ?thesis using Inl d5 w5(4) \<open>node_at w7 ?p = None\<close> by (simp add: download_file.simps)
  next
    case (Inr u)
    then show ?thesis using d5 w5(4) by (simp add: download_file.simps)
  qed
  have url: "fst (fix_github_url (source_URL c) w5) = ?url" by (rule fix_github_url_fst)
  have req: "requests (snd (download_file E c w)) = requests (snd (fresh_download E c w5))"
    using outer inner(2) d5 by simp
  obtain r6 v6 where fr: "fresh_download E c w5 = (r6, v6)" by force
  have "w5 = (w\<lparr>fs := (fs w)(?p := None)\<rparr>)\<lparr>logs := logs w5\<rparr>"
    using w5(1,2) by (intro world.equality) simp_all
  moreover from assms(4)
  have "os_makedirs True (dirname ?p) (w\<lparr>fs := (fs w)(?p := None)\<rparr>) = (Inr (), w6)"
    by (simp add: makedirs_conv)
  ultimately have "os_makedirs True (dirname ?p) w5 = (Inr (), w6\<lparr>logs := logs w5\<rparr>)"
    using os_makedirs_logs [where b = True and name = "dirname ?p"
            and w = "w\<lparr>fs := (fs w)(?p := None)\<rparr>" and x = "logs w5"]
    by simp
  then have "makedirs (dirname ?p) w5 = Inr (w6\<lparr>logs := logs w5\<rparr>)"
    by (simp add: makedirs_conv)
  from fresh_download_frame(3) [OF w5(3) fr this]
  show "requests (snd (download_file E c w)) = requests w @ [?url]"
    using req fr url w5(2) by simp
  show "\<forall>bs'. fst (download_file E c w) \<noteq> Inr () \<longrightarrow> node_at (snd (download_file E c w)) ?p \<noteq> Some (File bs')"
    using outer by auto
qed


text \<open>
  C1.  The destination \<open>d.zip\<close> has no directory part, and a corrupt file
  stands there.  The validation fails with \<open>BadZipFile\<close>, the retry handler
  logs that it removes the file and downloads it again, and removes it.  The
  second run asks \<open>os.makedirs\<close> for the directory \<open>''''\<close>, which raises
  \<open>FileNotFoundError\<close>: the method ends with this error, the file is gone and
  no request was made.  With the destination \<open>/tmp/d.zip\<close> the same file is
  removed and requested again, once.
\<close>

theorem download_retry_without_directory:
  "fst (download_file sample_env bare_config (file_world ''d.zip'' ''PK-bad''))
     = Inl (FileNotFoundError (''[Errno 2] No such file or directory: '' @ [CHR 0x27, CHR 0x27]))
   \<and> requests (snd (download_file sample_env bare_config (file_world ''d.zip'' ''PK-bad''))) = []
   \<and> node_at (snd (download_file sample_env bare_config (file_world ''d.zip'' ''PK-bad''))) ''d.zip'' = None
   \<and> logs (snd (download_file sample_env bare_config (file_world ''d.zip'' ''PK-bad'')))
     = [(INFO, ''File already exists of size: ~ 0 KB''),
        (WARNING, ''Existing file is invalid: Corrupted ZIP file: File is not a zip file''),
        (INFO, ''Removing invalid file and re-downloading...''),
        (ERROR, ''Download failed: [Errno 2] No such file or directory: '' @ [CHR 0x27, CHR 0x27]),
        (ERROR, ''Download failed: [Errno 2] No such file or directory: '' @ [CHR 0x27, CHR 0x27])]
   \<and> requests (snd (download_file sample_env sample_config (file_world ''/tmp/d.zip'' ''PK-bad'')))
     = [''https://raw.githubusercontent.com/org/repo/main/data.zip'']"
proof -
  let ?w = "file_world ''d.zip'' ''PK-bad''"
  let ?e = "FileNotFoundError (''[Errno 2] No such file or directory: '' @ [CHR 0x27, CHR 0x27])"
  let ?l3 = "[(INFO, ''File already exists of size: ~ 0 KB''),
        (WARNING, ''Existing file is invalid: Corrupted ZIP file: File is not a zip file''),
        (INFO, ''Removing invalid file and re-downloading...'')]"
  have p: "local_data_file bare_config = ''d.zip''" by (simp add: bare_config_def)
  have n: "node_at ?w ''d.zip'' = Some (File ''PK-bad'')"
    by (rule node_at_file_world) (simp_all add: is_root_def)
  have s0: "str_nat 0 = ''0''" by code_simp
  have sz: "size_string sample_env ''d.zip'' ?w = Inr ''~ 0 KB''"
    using n by (simp add: size_string_def getsize_def sample_env_def s0)
  define w1 where "w1 = logger INFO (''File already exists of size: ~ 0 KB'') ?w"
  have n1: "node_at w1 ''d.zip'' = Some (File ''PK-bad'')" using n by (simp add: w1_def)
  have v: "validate_zip_file sample_env ''d.zip'' w1
             = (Inl (BadZipFile ''Corrupted ZIP file: File is not a zip file''), w1)"
    using validate_File [OF n1, of sample_env] by (simp add: sample_env_def)
  define w4 where "w4 = logger INFO ''Removing invalid file and re-downloading...''
      (logger WARNING ''Existing file is invalid: Corrupted ZIP file: File is not a zip file'' w1)"
  have n4: "node_at w4 ''d.zip'' = Some (File ''PK-bad'')" using n1 by (simp add: w4_def)
  define w5 where "w5 = w4\<lparr>fs := (fs w4)(''d.zip'' := None)\<rparr>"
  have rm: "os_remove ''d.zip'' w4 = Inr w5" and n5: "node_at w5 ''d.zip'' = None"
    using os_remove_File [OF n4] by (simp_all add: w5_def)
  have l5: "logs w5 = ?l3" and r5: "requests w5 = []"
    by (simp_all add: w5_def w4_def w1_def file_world_def)
  have d: "dirname ''d.zip'' = []" by (simp add: dirname_def)
  have fr: "fresh_download sample_env bare_config w5 = (Inl (ENOENT []), w5)"
    by (simp add: fresh_download_def p d os_makedirs_empty)
  have e: "ENOENT [] = ?e" by (simp add: ENOENT_def os_msg_def)
  define w6 where "w6 = logger ERROR (''Download failed: '' @ exn_str ?e) w5"
  have inner: "download_file sample_env bare_config w5 = (Inl ?e, w6)"
    using n5 fr
    by (simp add: download_file.simps download_try.simps p path_exists_def except_Exception_def e w6_def)
  have n6: "node_at w6 ''d.zip'' = None" using n5 by (simp add: w6_def)
  have body: "download_try sample_env bare_config ?w = (Inl ?e, w6)"
    using n sz v rm inner unfolding w1_def w4_def
    by (simp add: download_try.simps p path_exists_def Let_def)
  have run: "download_file sample_env bare_config ?w
               = (Inl ?e, logger ERROR (''Download failed: '' @ exn_str ?e) w6)"
    using body n6 by (simp add: download_file.simps p path_exists_def except_Exception_def)
  have 1: "fst (download_file sample_env bare_config ?w) = Inl ?e"
    and 2: "requests (snd (download_file sample_env bare_config ?w)) = []"
    and 3: "node_at (snd (download_file sample_env bare_config ?w)) ''d.zip'' = None"
    and 4: "logs (snd (download_file sample_env bare_config ?w))
              = ?l3 @ [(ERROR, ''Download failed: '' @ exn_str ?e), (ERROR, ''Download failed: '' @ exn_str ?e)]"
    unfolding run using r5 l5 n6 by (simp_all add: w6_def)
  let ?v = "file_world ''/tmp/d.zip'' ''PK-bad''"
  have q: "local_data_file sample_config = ''/tmp/d.zip''" by (simp add: sample_config_def)
  have m: "node_at ?v (local_data_file sample_config) = Some (File ''PK-bad'')"
    unfolding q by (rule node_at_file_world) (simp_all add: is_root_def)
  have vv: "fst (validate_zip_file sample_env (local_data_file sample_config) ?v)
              = Inl (BadZipFile ''Corrupted ZIP file: File is not a zip file'')"
    using validate_File [OF m, of sample_env] by (simp add: sample_env_def)
  have dd: "dirname ''/tmp/d.zip'' = ''/tmp''"
    by (simp add: dirname_def)
  have pn: "parent_and_name ''/tmp'' = (''/'', ''tmp'')"
    by (simp add: parent_and_name_def split_path_def dirname_def basename_def)
  have "\<exists>v6. os_makedirs True ''/tmp'' (?v\<lparr>fs := (fs ?v)(''/tmp/d.zip'' := None)\<rparr>) = (Inr (), v6)"
    by (subst os_makedirs.simps)
       (simp add: pn makedirs_leaf_def mkdir_def path_exists_def node_at_def is_root_def file_world_def)
  then obtain v6 where
    "makedirs (dirname (local_data_file sample_config))
        (?v\<lparr>fs := (fs ?v)(local_data_file sample_config := None)\<rparr>) = Inr v6"
    unfolding q dd by (auto simp: makedirs_conv)
  from download_retry_with_directory(1) [OF m vv _ this]
  have 5: "requests (snd (download_file sample_env sample_config ?v))
             = [''https://raw.githubusercontent.com/org/repo/main/data.zip'']"
    using sample_fresh_facts(3) fix_github_url_fst [of "source_URL sample_config" ?v empty_world]
    by (simp add: file_world_def)
  show ?thesis
    using 1 2 3 4 5 by simp
qed





end
